theory Spec2Isabelle
  imports Main
begin

section \<open>The 2048 grid engine and its session state (2048Final.py)\<close>

text \<open>
  Cells are Python integers (\<open>int\<close>); a line is a list of cells, a grid a list of lines.
  Exceptions of the source are values of \<open>error\<close>. The two draws \<open>add_tile\<close> takes from
  the \<open>random\<close> module are an explicit argument.
\<close>

type_synonym line = "int list"
type_synonym grid = "int list list"

datatype error = IndexError | UnboundLocalError

definition GRID_WIDTH :: nat where
  "GRID_WIDTH = 4"

subsection \<open>merge\_tiles\<close>

text \<open>
  One iteration of the loop body of \<open>merge_tiles\<close> at index \<open>i\<close>, on the pair of the
  list being updated in place and the score accumulated so far.
\<close>

definition merge_step :: "nat \<Rightarrow> line \<times> int \<Rightarrow> line \<times> int" where
  "merge_step i st =
     (case st of (merged_line, newAddedScore) \<Rightarrow>
        if merged_line ! i = merged_line ! (i + 1)
        then (let merged_value = merged_line ! i * 2
              in (merged_line[i := merged_value, i + 1 := 0], newAddedScore + merged_value))
        else (merged_line, newAddedScore))"

text \<open>
  \<open>range(len(merged_line) - 1)\<close> is empty for the empty list, as the truncating
  subtraction on \<open>nat\<close> makes \<open>[0..<length xs - 1]\<close>; every index read is in range.
  \<open>[0] * (GRID_WIDTH - len(merged_line))\<close> is empty for a negative count, as
  \<open>replicate\<close> of a truncated difference is.
\<close>

definition merge_tiles :: "line \<Rightarrow> line \<times> int" where
  "merge_tiles line =
     (let merged_line = filter (\<lambda>x. x \<noteq> 0) line;
          (merged_line', newAddedScore) =
             fold merge_step [0..<length merged_line - 1] (merged_line, 0);
          merged_line'' = filter (\<lambda>x. x \<noteq> 0) merged_line'
      in (merged_line'' @ replicate (GRID_WIDTH - length merged_line'') 0, newAddedScore))"

subsection \<open>The loop of merge\_tiles as a scan\<close>

text \<open>
  \<open>scan\<close> is the list the loop leaves when it starts at the head of its argument:
  a merge writes the doubled value, leaves 0 in the neighbour's place and goes on from
  that 0. \<open>scan_score\<close> is the score the same pass adds.
\<close>

fun scan :: "line \<Rightarrow> line" where
  "scan (x # y # r) = (if x = y then (x * 2) # scan (0 # r) else x # scan (y # r))"
| "scan xs = xs"

fun scan_score :: "line \<Rightarrow> int" where
  "scan_score (x # y # r) =
     (if x = y then x * 2 + scan_score (0 # r) else scan_score (y # r))"
| "scan_score xs = 0"

text \<open>
  The pass in the words of the specification: each cell merges with its immediate right
  neighbour at most once when they are equal; the merged cell takes the doubled value, the
  neighbour is consumed and the pass continues after it. \<open>merge_gain\<close> is the sum of the
  values the merges create.
\<close>

fun merge_pass :: "line \<Rightarrow> line" where
  "merge_pass (x # y # r) = (if x = y then (x * 2) # merge_pass r else x # merge_pass (y # r))"
| "merge_pass xs = xs"

fun merge_gain :: "line \<Rightarrow> int" where
  "merge_gain (x # y # r) = (if x = y then x * 2 + merge_gain r else merge_gain (y # r))"
| "merge_gain xs = 0"

definition compress_and_merge_spec :: "line \<Rightarrow> line \<times> int" where
  "compress_and_merge_spec line =
     (let nz = filter (\<lambda>x. x \<noteq> 0) line;
          merged = merge_pass nz
      in (merged @ replicate (GRID_WIDTH - length merged) 0, merge_gain nz))"

subsection \<open>The four moves\<close>

text \<open>
  \<open>move_left\<close> and \<open>move_right\<close> loop over the rows, appending each merged row and
  adding its score.
\<close>

definition move_left :: "grid \<Rightarrow> grid \<times> int" where
  "move_left g =
     fold (\<lambda>row (new_grid, score).
             let (merged_row, row_score) = merge_tiles row
             in (new_grid @ [merged_row], score + row_score))
          g ([], 0)"

definition move_right :: "grid \<Rightarrow> grid \<times> int" where
  "move_right g =
     fold (\<lambda>row (new_grid, score).
             let reversed_row = rev row;
                 (merged_row, row_score) = merge_tiles reversed_row
             in (new_grid @ [rev merged_row], score + row_score))
          g ([], 0)"

text \<open>
  \<open>list(map(list, zip(*grid)))\<close>: the columns of the grid, as many as the shortest row
  has cells; the empty grid has none.
\<close>

definition zip_star :: "'a list list \<Rightarrow> 'a list list" where
  "zip_star rows =
     (case rows of
        [] \<Rightarrow> []
      | r # rs \<Rightarrow> map (\<lambda>j. map (\<lambda>row. row ! j) rows)
                      [0..<fold min (map length rs) (length r)])"

definition move_up :: "grid \<Rightarrow> grid \<times> int" where
  "move_up g =
     (let transposed_grid = zip_star g;
          (new_transposed_grid, score) = move_left transposed_grid
      in (zip_star new_transposed_grid, score))"

definition move_down :: "grid \<Rightarrow> grid \<times> int" where
  "move_down g =
     (let transposed_grid = zip_star g;
          (new_transposed_grid, score) = move_right transposed_grid
      in (zip_star new_transposed_grid, score))"

text \<open>
  \<open>move\<close> binds \<open>new_grid\<close> only in the four branches; with any other direction the
  read of \<open>new_grid\<close> in the comparison raises UnboundLocalError. The flag is
  \<open>any(old_row != new_row for old_row, new_row in zip(grid, new_grid))\<close>.
\<close>

definition move :: "grid \<Rightarrow> string \<Rightarrow> error + (grid \<times> int \<times> bool)" where
  "move g direction =
     (let bound =
            (if direction = ''a'' then Some (move_left g)
             else if direction = ''d'' then Some (move_right g)
             else if direction = ''w'' then Some (move_up g)
             else if direction = ''s'' then Some (move_down g)
             else None)
      in case bound of
           None \<Rightarrow> Inl UnboundLocalError
         | Some (new_grid, newAddedScore) \<Rightarrow>
             Inr (new_grid, newAddedScore,
                  list_ex (\<lambda>(old_row, new_row). old_row \<noteq> new_row) (zip g new_grid)))"

subsection \<open>is\_game\_over\<close>

text \<open>
  \<open>zip(row[:-1], row[1:])\<close> pairs each cell with its right neighbour; the first pair
  with equal cells or an empty cell returns False.
\<close>

definition pair_open :: "int \<times> int \<Rightarrow> bool" where
  "pair_open p = (case p of (x, y) \<Rightarrow> x = y \<or> x = 0 \<or> y = 0)"

definition line_open :: "line \<Rightarrow> bool" where
  "line_open row = list_ex pair_open (zip (butlast row) (tl row))"

definition is_game_over :: "grid \<Rightarrow> bool" where
  "is_game_over g =
     (if list_ex line_open g then False
      else if list_ex line_open (zip_star g) then False
      else True)"

subsection \<open>add\_tile and new\_game\<close>

text \<open>
  The draws of one call of \<open>add_tile\<close>: \<open>random.choice\<close> returns the element of
  \<open>empty_tiles\<close> at some index below its length (here \<open>choice_index\<close> modulo the
  length), and \<open>random.random() < 0.9\<close> is a truth value.
\<close>

record draws =
  choice_index :: nat
  random_lt_09 :: bool

definition empty_tiles :: "grid \<Rightarrow> (nat \<times> nat) list" where
  "empty_tiles g =
     concat (map (\<lambda>i. map (\<lambda>j. (i, j)) (filter (\<lambda>j. g ! i ! j = 0) [0..<GRID_WIDTH]))
                 [0..<GRID_WIDTH])"

text \<open>
  The comprehension reads \<open>grid[i][j]\<close> for all \<open>i\<close>, \<open>j\<close> below 4: IndexError on a
  grid with fewer than four rows or with a short row among the first four.
  \<open>random.choice\<close> of the empty list raises IndexError. The grid is updated in place.
\<close>

definition add_tile :: "grid \<Rightarrow> draws \<Rightarrow> error + grid" where
  "add_tile g rnd =
     (if length g < GRID_WIDTH \<or> list_ex (\<lambda>row. length row < GRID_WIDTH) (take GRID_WIDTH g)
      then Inl IndexError
      else let et = empty_tiles g
           in if et = [] then Inl IndexError
              else (case et ! (choice_index rnd mod length et) of
                      (i, j) \<Rightarrow>
                        Inr (g[i := (g ! i)[j := (if random_lt_09 rnd then 2 else 4)]])))"

definition new_game :: "draws \<Rightarrow> draws \<Rightarrow> error + grid" where
  "new_game r1 r2 =
     (case add_tile (replicate GRID_WIDTH (replicate GRID_WIDTH 0)) r1 of
        Inl e \<Rightarrow> Inl e
      | Inr g1 \<Rightarrow> add_tile g1 r2)"

subsection \<open>The session state and its request handlers\<close>

record game_state =
  grid :: "int list list"
  score :: int
  high_score :: int

datatype outcome = Returned | Redirected | Raised error

text \<open>
  \<open>GAME_STATE\<close> at start-up: a new grid, both scores 0.
\<close>

definition initial_state :: "draws \<Rightarrow> draws \<Rightarrow> error + game_state" where
  "initial_state r1 r2 =
     (case new_game r1 r2 of
        Inl e \<Rightarrow> Inl e
      | Inr g \<Rightarrow> Inr \<lparr>grid = g, score = 0, high_score = 0\<rparr>)"

text \<open>
  \<open>restart_game\<close>; the LCD update writes to the display only.
\<close>

definition restart_game :: "draws \<Rightarrow> draws \<Rightarrow> game_state \<Rightarrow> outcome \<times> game_state" where
  "restart_game r1 r2 st =
     (case new_game r1 r2 of
        Inl e \<Rightarrow> (Raised e, st)
      | Inr g \<Rightarrow> (Returned, st\<lparr>grid := g, score := 0\<rparr>))"

text \<open>
  \<open>not direction\<close> holds of None and of the empty string.
\<close>

definition falsy :: "string option \<Rightarrow> bool" where
  "falsy d = (d = None \<or> d = Some [])"

text \<open>
  The body of \<open>move_tiles\<close> under \<open>if direction in ('w', 'a', 's', 'd')\<close>. The tuple
  assignment stores the new grid before \<open>moved\<close> is tested; an exception of
  \<open>add_tile\<close> leaves that grid stored and the scores as they were.
\<close>

definition move_tiles_valid :: "string \<Rightarrow> draws \<Rightarrow> game_state \<Rightarrow> outcome \<times> game_state" where
  "move_tiles_valid direction rnd st =
     (case move (grid st) direction of
        Inl e \<Rightarrow> (Raised e, st)
      | Inr (new_grid, addedScore, moved) \<Rightarrow>
          (let st1 = st\<lparr>grid := new_grid\<rparr>
           in if moved
              then (case add_tile new_grid rnd of
                      Inl e \<Rightarrow> (Raised e, st1)
                    | Inr g2 \<Rightarrow>
                        (let st2 = st1\<lparr>grid := g2, score := score st1 + addedScore\<rparr>;
                             st3 = (if score st2 > high_score st2
                                    then st2\<lparr>high_score := score st2\<rparr> else st2)
                         in (Returned, st3)))
              else (Returned, st1)))"

text \<open>
  \<open>move_tiles(direction)\<close>: \<open>form\<close> is what \<open>request.forms.get('direction')\<close>
  returns, read only when the argument is None or empty. At the end a direction that is
  still None or empty makes \<open>redirect('/')\<close> leave the handler.
\<close>

definition move_tiles ::
  "string option \<Rightarrow> string option \<Rightarrow> draws \<Rightarrow> game_state \<Rightarrow> outcome \<times> game_state" where
  "move_tiles direction form rnd st =
     (let direction' = (if falsy direction then form else direction);
          (oc, st') =
            (if direction' = Some ''w'' \<or> direction' = Some ''a''
                \<or> direction' = Some ''s'' \<or> direction' = Some ''d''
             then move_tiles_valid (the direction') rnd st
             else (Returned, st))
      in case oc of
           Raised e \<Rightarrow> (Raised e, st')
         | _ \<Rightarrow> if falsy direction' then (Redirected, st') else (oc, st'))"

text \<open>
  The requests that change the session, and a run of them from a state. A request that
  raises leaves the state as the exception found it, and the server goes on.
\<close>

datatype request =
    Move "string option" "string option" draws
  | Restart draws draws

fun handle :: "request \<Rightarrow> game_state \<Rightarrow> outcome \<times> game_state" where
  "handle (Move direction form rnd) st = move_tiles direction form rnd st"
| "handle (Restart r1 r2) st = restart_game r1 r2 st"

definition run :: "request list \<Rightarrow> game_state \<Rightarrow> game_state" where
  "run rqs st = fold (\<lambda>rq s. snd (handle rq s)) rqs st"

subsection \<open>Predicates on grids\<close>

definition wf_grid :: "grid \<Rightarrow> bool" where
  "wf_grid g = (length g = GRID_WIDTH \<and> list_all (\<lambda>row. length row = GRID_WIDTH) g)"

text \<open>
  What \<open>move_left\<close> and \<open>move_right\<close> make of one row.
\<close>

definition slide_left :: "line \<Rightarrow> line" where
  "slide_left row = fst (merge_tiles row)"

definition slide_right :: "line \<Rightarrow> line" where
  "slide_right row = rev (fst (merge_tiles (rev row)))"

definition directions :: "string list" where
  "directions = [''w'', ''a'', ''s'', ''d'']"

text \<open>
  None of the four moves reports a change.
\<close>

definition no_move_changes :: "grid \<Rightarrow> bool" where
  "no_move_changes g =
     list_all (\<lambda>d. case move g d of
                     Inl e \<Rightarrow> False
                   | Inr (new_grid, sc, changed) \<Rightarrow> \<not> changed)
       directions"

definition no_empty_cell :: "grid \<Rightarrow> bool" where
  "no_empty_cell g = (\<forall>i<GRID_WIDTH. \<forall>j<GRID_WIDTH. g ! i ! j \<noteq> 0)"

definition no_equal_neighbours :: "grid \<Rightarrow> bool" where
  "no_equal_neighbours g =
     ((\<forall>i<GRID_WIDTH. \<forall>j<GRID_WIDTH - 1. g ! i ! j \<noteq> g ! i ! (j + 1))
      \<and> (\<forall>i<GRID_WIDTH - 1. \<forall>j<GRID_WIDTH. g ! i ! j \<noteq> g ! (i + 1) ! j))"

definition has_nonzero_cell :: "grid \<Rightarrow> bool" where
  "has_nonzero_cell g = list_ex (list_ex (\<lambda>x. x \<noteq> 0)) g"

definition has_empty_cell :: "grid \<Rightarrow> bool" where
  "has_empty_cell g = list_ex (list_ex (\<lambda>x. x = 0)) g"

definition grid_sum :: "grid \<Rightarrow> int" where
  "grid_sum g = sum_list (map sum_list g)"

definition nonzero_count :: "grid \<Rightarrow> nat" where
  "nonzero_count g = length (filter (\<lambda>x. x \<noteq> 0) (concat g))"

text \<open>
  A power of two that is at least 2, by repeated halving.
\<close>

function pow2_ge2 :: "int \<Rightarrow> bool" where
  "pow2_ge2 v = (if v < 2 then False else if v = 2 then True
                 else v mod 2 = 0 \<and> pow2_ge2 (v div 2))"
  by pat_completeness auto
termination
  by (relation "measure nat") auto

declare pow2_ge2.simps [simp del]

definition tile_ok :: "int \<Rightarrow> bool" where
  "tile_ok v = (v = 0 \<or> pow2_ge2 v)"

definition tiles_ok :: "grid \<Rightarrow> bool" where
  "tiles_ok g = list_all (list_all tile_ok) g"

text \<open>
  \<open>g'\<close> is \<open>g\<close> with one empty cell, inside the 4x4 range, set to 2 or 4.
\<close>

definition spawned_in :: "grid \<Rightarrow> grid \<Rightarrow> bool" where
  "spawned_in g g' =
     (\<exists>i<GRID_WIDTH. \<exists>j<GRID_WIDTH. \<exists>v\<in>{2, 4}.
        g ! i ! j = 0 \<and> g' = g[i := (g ! i)[j := v]])"

text \<open>
  Every cell is 0, 2 or 4.
\<close>

definition small_tiles :: "grid \<Rightarrow> bool" where
  "small_tiles g = list_all (list_all (\<lambda>x. x = 0 \<or> x = 2 \<or> x = 4)) g"

text \<open>
  The direction \<open>move_tiles\<close> tests: its argument, or the form field when the argument
  is None or empty.
\<close>

definition requested :: "string option \<Rightarrow> string option \<Rightarrow> string option" where
  "requested direction form = (if falsy direction then form else direction)"

text \<open>
  The high score is not negative and the score does not exceed it.
\<close>

definition scores_ok :: "game_state \<Rightarrow> bool" where
  "scores_ok st = (0 \<le> high_score st \<and> score st \<le> high_score st)"

section \<open>Properties\<close>

subsection \<open>merge\_tiles is the single pass\<close>

lemma merge_step_at:
  "merge_step (length pre) (pre @ x # y # r, sc) =
     (if x = y then (pre @ (x * 2) # 0 # r, sc + x * 2) else (pre @ x # y # r, sc))"
  by (simp add: merge_step_def nth_append list_update_append Let_def)

lemma fold_merge_step_scan:
  "fold merge_step [length pre..<length (pre @ ys) - 1] (pre @ ys, sc)
     = (pre @ scan ys, sc + scan_score ys)"
proof (induction ys arbitrary: pre sc rule: scan.induct)
  case (1 x y r)
  have upt: "[length pre..<length (pre @ x # y # r) - 1]
               = length pre # [length (pre @ [x * 2])..<length ((pre @ [x * 2]) @ 0 # r) - 1]"
    by (subst upt_rec) simp
  have upt': "[length pre..<length (pre @ x # y # r) - 1]
               = length pre # [length (pre @ [x])..<length ((pre @ [x]) @ y # r) - 1]"
    by (subst upt_rec) simp
  show ?case
  proof (cases "x = y")
    case True
    have "fold merge_step [length pre..<length (pre @ x # y # r) - 1] (pre @ x # y # r, sc)
            = fold merge_step [length (pre @ [x * 2])..<length ((pre @ [x * 2]) @ 0 # r) - 1]
                ((pre @ [x * 2]) @ 0 # r, sc + x * 2)"
      unfolding upt using True by (simp add: merge_step_at)
    also have "\<dots> = ((pre @ [x * 2]) @ scan (0 # r), (sc + x * 2) + scan_score (0 # r))"
      using "1.IH"(1) [OF True] .
    finally show ?thesis using True by simp
  next
    case False
    have "fold merge_step [length pre..<length (pre @ x # y # r) - 1] (pre @ x # y # r, sc)
            = fold merge_step [length (pre @ [x])..<length ((pre @ [x]) @ y # r) - 1]
                ((pre @ [x]) @ y # r, sc)"
      unfolding upt' using False by (simp add: merge_step_at)
    also have "\<dots> = ((pre @ [x]) @ scan (y # r), sc + scan_score (y # r))"
      using "1.IH"(2) [OF False] .
    finally show ?thesis using False by simp
  qed
qed simp_all

lemma scan_zero_head:
  "0 \<notin> set r \<Longrightarrow> scan (0 # r) = 0 # scan r \<and> scan_score (0 # r) = scan_score r"
  by (cases r) auto

lemma scan_merge_pass:
  "0 \<notin> set xs \<Longrightarrow> filter (\<lambda>x. x \<noteq> 0) (scan xs) = merge_pass xs \<and> scan_score xs = merge_gain xs"
proof (induction xs rule: merge_pass.induct)
  case (1 x y r)
  then have nz: "x \<noteq> 0" "y \<noteq> 0" "0 \<notin> set r" by auto
  show ?case
  proof (cases "x = y")
    case True
    with 1 nz show ?thesis by (simp add: scan_zero_head)
  next
    case False
    with 1 nz show ?thesis by simp
  qed
qed auto

lemma merge_tiles_loop:
  "fold merge_step [0..<length xs - 1] (xs, 0) = (scan xs, scan_score xs)"
  using fold_merge_step_scan [of "[]" xs 0] by simp

lemma merge_tiles_refines:
  "merge_tiles line = compress_and_merge_spec line"
proof -
  have nz: "0 \<notin> set (filter (\<lambda>x. x \<noteq> 0) line)" by simp
  show ?thesis
    unfolding merge_tiles_def compress_and_merge_spec_def merge_tiles_loop Let_def
    using scan_merge_pass [OF nz] by simp
qed

text \<open>
  C3: \<open>merge_tiles\<close> removes zeros, makes one left-to-right pass in which a cell merges
  with its equal right neighbour at most once, removes zeros again and pads to length 4,
  returning the sum of the values created by merges; on [2,2,2,0], [2,2,2,2] and
  [0,0,2,2] it returns ([4,2,0,0], 4), ([4,4,0,0], 8) and ([4,0,0,0], 4).
\<close>

theorem merge_tiles_single_pass:
  "merge_tiles line = compress_and_merge_spec line
   \<and> merge_tiles [2, 2, 2, 0] = ([4, 2, 0, 0], 4)
   \<and> merge_tiles [2, 2, 2, 2] = ([4, 4, 0, 0], 8)
   \<and> merge_tiles [0, 0, 2, 2] = ([4, 0, 0, 0], 4)"
  by (simp add: merge_tiles_refines compress_and_merge_spec_def GRID_WIDTH_def
        eval_nat_numeral)

subsection \<open>Moves on well-formed grids\<close>


lemma move_left_fold:
  "fold (\<lambda>row (new_grid, score).
             let (merged_row, row_score) = merge_tiles row
             in (new_grid @ [merged_row], score + row_score)) g (acc, sc)
   = (acc @ map slide_left g, sc + sum_list (map (\<lambda>row. snd (merge_tiles row)) g))"
  by (induction g arbitrary: acc sc) (auto simp: case_prod_beta Let_def slide_left_def)

lemma move_left_map:
  "move_left g = (map slide_left g, sum_list (map (\<lambda>row. snd (merge_tiles row)) g))"
  unfolding move_left_def move_left_fold by simp

lemma move_right_fold:
  "fold (\<lambda>row (new_grid, score).
             let reversed_row = rev row;
                 (merged_row, row_score) = merge_tiles reversed_row
             in (new_grid @ [rev merged_row], score + row_score)) g (acc, sc)
   = (acc @ map slide_right g,
      sc + sum_list (map (\<lambda>row. snd (merge_tiles (rev row))) g))"
  by (induction g arbitrary: acc sc) (auto simp: case_prod_beta Let_def slide_right_def)

lemma move_right_map:
  "move_right g = (map slide_right g,
                   sum_list (map (\<lambda>row. snd (merge_tiles (rev row))) g))"
  unfolding move_right_def move_right_fold by simp

lemma rows_differ_iff:
  "length a = length b \<Longrightarrow>
     list_ex (\<lambda>(old_row, new_row). old_row \<noteq> new_row) (zip a b) = (a \<noteq> b)"
  by (induction a b rule: list_induct2) auto

lemma line4: "length (l :: 'a list) = 4 \<Longrightarrow> \<exists>w x y z. l = [w, x, y, z]"
  by (auto simp: length_Suc_conv eval_nat_numeral)

lemma zip_star4:
  "zip_star [[a0, a1, a2, a3], [b0, b1, b2, b3], [c0, c1, c2, c3], [d0, d1, d2, d3]]
     = [[a0, b0, c0, d0], [a1, b1, c1, d1], [a2, b2, c2, d2], [a3, b3, c3, d3]]"
  by (simp add: zip_star_def upt_rec [of _ 4] upt_rec [of _ "Suc _"] eval_nat_numeral)

lemma wf_grid_rows:
  "wf_grid g \<Longrightarrow> \<exists>r0 r1 r2 r3. g = [r0, r1, r2, r3] \<and> length r0 = 4 \<and> length r1 = 4
      \<and> length r2 = 4 \<and> length r3 = 4"
  unfolding wf_grid_def GRID_WIDTH_def
  by (auto dest!: line4)

lemma length_merge_pass: "length (merge_pass xs) \<le> length xs"
  by (induction xs rule: merge_pass.induct) auto

lemma length_merge_tiles:
  "length l \<le> GRID_WIDTH \<Longrightarrow> length (fst (merge_tiles l)) = GRID_WIDTH"
proof -
  assume a: "length l \<le> GRID_WIDTH"
  have "length (merge_pass (filter (\<lambda>x. x \<noteq> 0) l)) \<le> length (filter (\<lambda>x. x \<noteq> 0) l)"
    by (rule length_merge_pass)
  also have "\<dots> \<le> length l" by simp
  finally show ?thesis using a
    by (simp add: merge_tiles_refines compress_and_merge_spec_def Let_def)
qed

lemma sum_list_merge_pass: "sum_list (merge_pass xs) = sum_list xs"
  by (induction xs rule: merge_pass.induct) auto

lemma sum_list_nonzero: "sum_list (filter (\<lambda>x. x \<noteq> 0) (xs :: int list)) = sum_list xs"
  by (induction xs) auto

lemma sum_list_merge_tiles: "sum_list (fst (merge_tiles l)) = sum_list l"
  by (simp add: merge_tiles_refines compress_and_merge_spec_def Let_def
        sum_list_merge_pass sum_list_nonzero sum_list_replicate)


lemma length_slide:
  "length l = GRID_WIDTH \<Longrightarrow> length (slide_left l) = GRID_WIDTH"
  "length l = GRID_WIDTH \<Longrightarrow> length (slide_right l) = GRID_WIDTH"
  by (simp_all add: slide_left_def slide_right_def length_merge_tiles)

lemma wf_grid_map:
  "wf_grid g \<Longrightarrow> (\<And>l. length l = GRID_WIDTH \<Longrightarrow> length (f l) = GRID_WIDTH)
     \<Longrightarrow> wf_grid (map f g)"
  by (simp add: wf_grid_def list_all_iff)

lemma wf_grid_zip_star: "wf_grid g \<Longrightarrow> wf_grid (zip_star g)"
  by (auto dest!: wf_grid_rows line4 simp: zip_star4) (simp add: wf_grid_def GRID_WIDTH_def)

lemma zip_star_involution: "wf_grid g \<Longrightarrow> zip_star (zip_star g) = g"
  by (auto dest!: wf_grid_rows line4 simp: zip_star4)

lemma zip_star_inject:
  "wf_grid a \<Longrightarrow> wf_grid b \<Longrightarrow> (zip_star a = zip_star b) = (a = b)"
  by (metis zip_star_involution)

lemma map_fixed_iff: "(xs = map f xs) = (\<forall>x\<in>set xs. f x = x)"
  by (induction xs) auto

lemma move_a:
  "move g ''a'' = Inr (map slide_left g, sum_list (map (\<lambda>row. snd (merge_tiles row)) g),
                       \<exists>row\<in>set g. slide_left row \<noteq> row)"
  by (simp add: move_def move_left_map rows_differ_iff map_fixed_iff)

lemma move_d:
  "move g ''d'' = Inr (map slide_right g,
                       sum_list (map (\<lambda>row. snd (merge_tiles (rev row))) g),
                       \<exists>row\<in>set g. slide_right row \<noteq> row)"
  by (simp add: move_def move_right_map rows_differ_iff map_fixed_iff)

lemma transposed_changed:
  assumes g: "wf_grid g" and f: "\<And>l. length l = GRID_WIDTH \<Longrightarrow> length (f l) = GRID_WIDTH"
  shows "list_ex (\<lambda>(old_row, new_row). old_row \<noteq> new_row)
           (zip g (zip_star (map f (zip_star g))))
         = (\<exists>col\<in>set (zip_star g). f col \<noteq> col)"
proof -
  let ?h = "map f (zip_star g)"
  have h: "wf_grid ?h" using g f by (intro wf_grid_map wf_grid_zip_star)
  then have "wf_grid (zip_star ?h)" by (rule wf_grid_zip_star)
  then have "length g = length (zip_star ?h)" using g by (simp add: wf_grid_def)
  then have "list_ex (\<lambda>(old_row, new_row). old_row \<noteq> new_row) (zip g (zip_star ?h))
               = (g \<noteq> zip_star ?h)"
    by (rule rows_differ_iff)
  also have "\<dots> = (zip_star (zip_star g) \<noteq> zip_star ?h)"
    using g by (simp add: zip_star_involution)
  also have "\<dots> = (zip_star g \<noteq> ?h)"
    using zip_star_inject [OF wf_grid_zip_star [OF g] h] by simp
  also have "\<dots> = (\<exists>col\<in>set (zip_star g). f col \<noteq> col)"
    using map_fixed_iff [where f = f and xs = "zip_star g"] by auto
  finally show ?thesis .
qed

lemma move_w:
  "wf_grid g \<Longrightarrow>
   move g ''w'' = Inr (zip_star (map slide_left (zip_star g)),
                       sum_list (map (\<lambda>row. snd (merge_tiles row)) (zip_star g)),
                       \<exists>col\<in>set (zip_star g). slide_left col \<noteq> col)"
  using transposed_changed [of g slide_left]
  by (simp add: move_def move_up_def move_left_map length_slide Let_def)

lemma move_s:
  "wf_grid g \<Longrightarrow>
   move g ''s'' = Inr (zip_star (map slide_right (zip_star g)),
                       sum_list (map (\<lambda>row. snd (merge_tiles (rev row))) (zip_star g)),
                       \<exists>col\<in>set (zip_star g). slide_right col \<noteq> col)"
  using transposed_changed [of g slide_right]
  by (simp add: move_def move_down_def move_right_map length_slide Let_def)

lemma slide_left_fixed:
  "(slide_left [w, x, y, z] = [w, x, y, z])
   = ((w = 0 \<longrightarrow> x = 0) \<and> (x = 0 \<longrightarrow> y = 0) \<and> (y = 0 \<longrightarrow> z = 0)
      \<and> (w \<noteq> 0 \<longrightarrow> w \<noteq> x) \<and> (x \<noteq> 0 \<longrightarrow> x \<noteq> y) \<and> (y \<noteq> 0 \<longrightarrow> y \<noteq> z))"
  by (cases "w = 0"; cases "x = 0"; cases "y = 0"; cases "z = 0";
      simp add: slide_left_def merge_tiles_refines compress_and_merge_spec_def
        Let_def GRID_WIDTH_def eval_nat_numeral; fastforce)

lemma slide_right_fixed:
  "(slide_right [w, x, y, z] = [w, x, y, z]) = (slide_left [z, y, x, w] = [z, y, x, w])"
  by (auto simp: slide_right_def slide_left_def rev_swap)

lemma line_stuck_iff:
  "(slide_left [w, x, y, z] = [w, x, y, z] \<and> slide_right [w, x, y, z] = [w, x, y, z])
   = ((w = 0 \<and> x = 0 \<and> y = 0 \<and> z = 0) \<or> \<not> line_open [w, x, y, z])"
  unfolding slide_right_fixed slide_left_fixed
  by (auto simp: line_open_def pair_open_def)

lemma line_closed_nonzero:
  "\<not> line_open [w, x, y, z] \<Longrightarrow> w \<noteq> 0 \<and> x \<noteq> 0 \<and> y \<noteq> 0 \<and> z \<noteq> 0"
  by (auto simp: line_open_def pair_open_def)

lemma no_move_changes_lines:
  assumes "wf_grid g"
  shows "no_move_changes g =
           ((\<forall>row\<in>set g. slide_left row = row \<and> slide_right row = row)
            \<and> (\<forall>col\<in>set (zip_star g). slide_left col = col \<and> slide_right col = col))"
  using assms by (auto simp: no_move_changes_def directions_def move_a move_d move_w move_s)

lemma is_game_over_lines:
  "is_game_over g = ((\<forall>row\<in>set g. \<not> line_open row) \<and> (\<forall>col\<in>set (zip_star g). \<not> line_open col))"
  by (auto simp: is_game_over_def list_ex_iff)

lemma game_over_iff_stuck:
  assumes wf: "wf_grid g" and nz: "has_nonzero_cell g"
  shows "is_game_over g = no_move_changes g"
proof -
  from wf obtain r0 r1 r2 r3 where rows: "g = [r0, r1, r2, r3]"
    and len: "length r0 = 4" "length r1 = 4" "length r2 = 4" "length r3 = 4"
    using wf_grid_rows by blast
  from len obtain a0 a1 a2 a3 b0 b1 b2 b3 c0 c1 c2 c3 d0 d1 d2 d3 where
    r: "r0 = [a0, a1, a2, a3]" "r1 = [b0, b1, b2, b3]"
       "r2 = [c0, c1, c2, c3]" "r3 = [d0, d1, d2, d3]"
    using line4 [of r0] line4 [of r1] line4 [of r2] line4 [of r3] by blast
  define k0 k1 k2 k3 where k: "k0 = [a0, b0, c0, d0]" "k1 = [a1, b1, c1, d1]"
    "k2 = [a2, b2, c2, d2]" "k3 = [a3, b3, c3, d3]"
  have cols: "zip_star g = [k0, k1, k2, k3]"
    by (simp add: rows r k zip_star4)
  have over: "is_game_over g =
      ((\<not> line_open r0 \<and> \<not> line_open r1 \<and> \<not> line_open r2 \<and> \<not> line_open r3)
       \<and> (\<not> line_open k0 \<and> \<not> line_open k1 \<and> \<not> line_open k2 \<and> \<not> line_open k3))"
    unfolding is_game_over_lines cols by (simp add: rows)
  have stuck: "no_move_changes g =
      (((slide_left r0 = r0 \<and> slide_right r0 = r0) \<and> (slide_left r1 = r1 \<and> slide_right r1 = r1)
        \<and> (slide_left r2 = r2 \<and> slide_right r2 = r2) \<and> (slide_left r3 = r3 \<and> slide_right r3 = r3))
       \<and> ((slide_left k0 = k0 \<and> slide_right k0 = k0) \<and> (slide_left k1 = k1 \<and> slide_right k1 = k1)
        \<and> (slide_left k2 = k2 \<and> slide_right k2 = k2) \<and> (slide_left k3 = k3 \<and> slide_right k3 = k3)))"
    unfolding no_move_changes_lines [OF wf] cols by (simp add: rows)
  have sr: "(slide_left r0 = r0 \<and> slide_right r0 = r0)
              = ((a0 = 0 \<and> a1 = 0 \<and> a2 = 0 \<and> a3 = 0) \<or> \<not> line_open r0)"
           "(slide_left r1 = r1 \<and> slide_right r1 = r1)
              = ((b0 = 0 \<and> b1 = 0 \<and> b2 = 0 \<and> b3 = 0) \<or> \<not> line_open r1)"
           "(slide_left r2 = r2 \<and> slide_right r2 = r2)
              = ((c0 = 0 \<and> c1 = 0 \<and> c2 = 0 \<and> c3 = 0) \<or> \<not> line_open r2)"
           "(slide_left r3 = r3 \<and> slide_right r3 = r3)
              = ((d0 = 0 \<and> d1 = 0 \<and> d2 = 0 \<and> d3 = 0) \<or> \<not> line_open r3)"
    unfolding r by (rule line_stuck_iff)+
  have sk: "(slide_left k0 = k0 \<and> slide_right k0 = k0)
              = ((a0 = 0 \<and> b0 = 0 \<and> c0 = 0 \<and> d0 = 0) \<or> \<not> line_open k0)"
           "(slide_left k1 = k1 \<and> slide_right k1 = k1)
              = ((a1 = 0 \<and> b1 = 0 \<and> c1 = 0 \<and> d1 = 0) \<or> \<not> line_open k1)"
           "(slide_left k2 = k2 \<and> slide_right k2 = k2)
              = ((a2 = 0 \<and> b2 = 0 \<and> c2 = 0 \<and> d2 = 0) \<or> \<not> line_open k2)"
           "(slide_left k3 = k3 \<and> slide_right k3 = k3)
              = ((a3 = 0 \<and> b3 = 0 \<and> c3 = 0 \<and> d3 = 0) \<or> \<not> line_open k3)"
    unfolding k by (rule line_stuck_iff)+
  have nr: "\<not> line_open r0 \<Longrightarrow> a0 \<noteq> 0 \<and> a1 \<noteq> 0 \<and> a2 \<noteq> 0 \<and> a3 \<noteq> 0"
           "\<not> line_open r1 \<Longrightarrow> b0 \<noteq> 0 \<and> b1 \<noteq> 0 \<and> b2 \<noteq> 0 \<and> b3 \<noteq> 0"
           "\<not> line_open r2 \<Longrightarrow> c0 \<noteq> 0 \<and> c1 \<noteq> 0 \<and> c2 \<noteq> 0 \<and> c3 \<noteq> 0"
           "\<not> line_open r3 \<Longrightarrow> d0 \<noteq> 0 \<and> d1 \<noteq> 0 \<and> d2 \<noteq> 0 \<and> d3 \<noteq> 0"
    unfolding r by (rule line_closed_nonzero, assumption)+
  have nk: "\<not> line_open k0 \<Longrightarrow> a0 \<noteq> 0 \<and> b0 \<noteq> 0 \<and> c0 \<noteq> 0 \<and> d0 \<noteq> 0"
    unfolding k by (rule line_closed_nonzero)
  have some: "a0 \<noteq> 0 \<or> a1 \<noteq> 0 \<or> a2 \<noteq> 0 \<or> a3 \<noteq> 0 \<or> b0 \<noteq> 0 \<or> b1 \<noteq> 0 \<or> b2 \<noteq> 0 \<or> b3 \<noteq> 0
      \<or> c0 \<noteq> 0 \<or> c1 \<noteq> 0 \<or> c2 \<noteq> 0 \<or> c3 \<noteq> 0 \<or> d0 \<noteq> 0 \<or> d1 \<noteq> 0 \<or> d2 \<noteq> 0 \<or> d3 \<noteq> 0"
    using nz unfolding rows r has_nonzero_cell_def by simp
  show ?thesis
  proof
    assume "is_game_over g"
    then show "no_move_changes g" unfolding over stuck sr sk by simp
  next
    assume "no_move_changes g"
    then have s: "(a0 = 0 \<and> a1 = 0 \<and> a2 = 0 \<and> a3 = 0) \<or> \<not> line_open r0"
        "(b0 = 0 \<and> b1 = 0 \<and> b2 = 0 \<and> b3 = 0) \<or> \<not> line_open r1"
        "(c0 = 0 \<and> c1 = 0 \<and> c2 = 0 \<and> c3 = 0) \<or> \<not> line_open r2"
        "(d0 = 0 \<and> d1 = 0 \<and> d2 = 0 \<and> d3 = 0) \<or> \<not> line_open r3"
        "(a0 = 0 \<and> b0 = 0 \<and> c0 = 0 \<and> d0 = 0) \<or> \<not> line_open k0"
        "(a1 = 0 \<and> b1 = 0 \<and> c1 = 0 \<and> d1 = 0) \<or> \<not> line_open k1"
        "(a2 = 0 \<and> b2 = 0 \<and> c2 = 0 \<and> d2 = 0) \<or> \<not> line_open k2"
        "(a3 = 0 \<and> b3 = 0 \<and> c3 = 0 \<and> d3 = 0) \<or> \<not> line_open k3"
      unfolding stuck sr sk by simp_all
    from some s(1-4)
    have "\<not> line_open r0 \<or> \<not> line_open r1 \<or> \<not> line_open r2 \<or> \<not> line_open r3"
      by blast
    with nr have "a0 \<noteq> 0 \<or> b0 \<noteq> 0 \<or> c0 \<noteq> 0 \<or> d0 \<noteq> 0" by blast
    with s(5) have "\<not> line_open k0" by blast
    from nk [OF this] s(1-4)
    have closed_rows: "\<not> line_open r0" "\<not> line_open r1" "\<not> line_open r2" "\<not> line_open r3"
      by blast+
    from nr(1) [OF closed_rows(1)] s(5-8)
    have "\<not> line_open k0" "\<not> line_open k1" "\<not> line_open k2" "\<not> line_open k3"
      by blast+
    with closed_rows show "is_game_over g" unfolding over by simp
  qed
qed

lemma line_open4:
  "line_open [w, x, y, z]
     = (w = 0 \<or> x = 0 \<or> y = 0 \<or> z = 0 \<or> w = x \<or> x = y \<or> y = z)"
  by (auto simp: line_open_def pair_open_def)

lemma game_over_iff_closed:
  assumes wf: "wf_grid g"
  shows "is_game_over g = (no_empty_cell g \<and> no_equal_neighbours g)"
proof -
  from wf obtain r0 r1 r2 r3 where rows: "g = [r0, r1, r2, r3]"
    and len: "length r0 = 4" "length r1 = 4" "length r2 = 4" "length r3 = 4"
    using wf_grid_rows by blast
  from len obtain a0 a1 a2 a3 b0 b1 b2 b3 c0 c1 c2 c3 d0 d1 d2 d3 where
    r: "r0 = [a0, a1, a2, a3]" "r1 = [b0, b1, b2, b3]"
       "r2 = [c0, c1, c2, c3]" "r3 = [d0, d1, d2, d3]"
    using line4 [of r0] line4 [of r1] line4 [of r2] line4 [of r3] by blast
  have e: "no_empty_cell g =
     ((a0 \<noteq> 0 \<and> a1 \<noteq> 0 \<and> a2 \<noteq> 0 \<and> a3 \<noteq> 0) \<and> (b0 \<noteq> 0 \<and> b1 \<noteq> 0 \<and> b2 \<noteq> 0 \<and> b3 \<noteq> 0)
      \<and> (c0 \<noteq> 0 \<and> c1 \<noteq> 0 \<and> c2 \<noteq> 0 \<and> c3 \<noteq> 0) \<and> (d0 \<noteq> 0 \<and> d1 \<noteq> 0 \<and> d2 \<noteq> 0 \<and> d3 \<noteq> 0))"
    unfolding no_empty_cell_def GRID_WIDTH_def rows r
    by (simp add: eval_nat_numeral All_less_Suc) blast
  have n: "no_equal_neighbours g =
     (((a0 \<noteq> a1 \<and> a1 \<noteq> a2 \<and> a2 \<noteq> a3) \<and> (b0 \<noteq> b1 \<and> b1 \<noteq> b2 \<and> b2 \<noteq> b3)
       \<and> (c0 \<noteq> c1 \<and> c1 \<noteq> c2 \<and> c2 \<noteq> c3) \<and> (d0 \<noteq> d1 \<and> d1 \<noteq> d2 \<and> d2 \<noteq> d3))
      \<and> ((a0 \<noteq> b0 \<and> b0 \<noteq> c0 \<and> c0 \<noteq> d0) \<and> (a1 \<noteq> b1 \<and> b1 \<noteq> c1 \<and> c1 \<noteq> d1)
       \<and> (a2 \<noteq> b2 \<and> b2 \<noteq> c2 \<and> c2 \<noteq> d2) \<and> (a3 \<noteq> b3 \<and> b3 \<noteq> c3 \<and> c3 \<noteq> d3)))"
    unfolding no_equal_neighbours_def GRID_WIDTH_def rows r
    by (simp add: eval_nat_numeral All_less_Suc) blast
  have o: "is_game_over g =
     (\<not> line_open [a0, a1, a2, a3] \<and> \<not> line_open [b0, b1, b2, b3]
      \<and> \<not> line_open [c0, c1, c2, c3] \<and> \<not> line_open [d0, d1, d2, d3]
      \<and> \<not> line_open [a0, b0, c0, d0] \<and> \<not> line_open [a1, b1, c1, d1]
      \<and> \<not> line_open [a2, b2, c2, d2] \<and> \<not> line_open [a3, b3, c3, d3])"
    unfolding is_game_over_lines rows r zip_star4 by simp
  show ?thesis unfolding o e n line_open4 by blast
qed

lemma move_changed_iff:
  assumes wf: "wf_grid g" and d: "d \<in> set directions" and m: "move g d = Inr (ng, sc, ch)"
  shows "ch = (ng \<noteq> g)"
proof -
  have t: "(\<exists>col\<in>set (zip_star g). f col \<noteq> col) = (zip_star (map f (zip_star g)) \<noteq> g)"
    if "\<And>l. length l = GRID_WIDTH \<Longrightarrow> length (f l) = GRID_WIDTH" for f
  proof -
    have h: "wf_grid (map f (zip_star g))" using wf that by (intro wf_grid_map wf_grid_zip_star)
    have "(zip_star (map f (zip_star g)) \<noteq> g)
            = (zip_star (map f (zip_star g)) \<noteq> zip_star (zip_star g))"
      using wf by (simp add: zip_star_involution)
    also have "\<dots> = (map f (zip_star g) \<noteq> zip_star g)"
      using zip_star_inject [OF h wf_grid_zip_star [OF wf]] by simp
    also have "\<dots> = (\<exists>col\<in>set (zip_star g). f col \<noteq> col)"
      using map_fixed_iff [where f = f and xs = "zip_star g"] by auto
    finally show ?thesis by simp
  qed
  have r: "(\<exists>row\<in>set g. f row \<noteq> row) = (map f g \<noteq> g)" for f :: "line \<Rightarrow> line"
    using map_fixed_iff [where f = f and xs = g] by auto
  from d consider "d = ''w''" | "d = ''a''" | "d = ''s''" | "d = ''d''"
    by (auto simp: directions_def)
  then show ?thesis
  proof cases
    case 1 with m wf show ?thesis by (auto simp: move_w t length_slide)
  next
    case 2 with m show ?thesis by (auto simp: move_a r)
  next
    case 3 with m wf show ?thesis by (auto simp: move_s t length_slide)
  next
    case 4 with m show ?thesis by (auto simp: move_d r)
  qed
qed

lemma move_total:
  "d \<in> set directions \<Longrightarrow> \<exists>ng sc ch. move g d = Inr (ng, sc, ch)"
  by (auto simp: directions_def move_def split: prod.splits)

lemma merge_pass_same_length:
  "length (merge_pass xs) = length xs \<Longrightarrow> merge_pass xs = xs"
proof (induction xs rule: merge_pass.induct)
  case (1 x y r)
  show ?case
  proof (cases "x = y")
    case True
    with 1(3) have "length (merge_pass r) = Suc (length r)" by simp
    with length_merge_pass [of r] show ?thesis by simp
  next
    case False
    with 1 show ?thesis by simp
  qed
qed auto

lemma filter_same_length:
  "length (filter P xs) = length xs \<Longrightarrow> filter P xs = xs"
proof (induction xs)
  case (Cons a xs)
  show ?case
  proof (cases "P a")
    case True with Cons show ?thesis by simp
  next
    case False
    with Cons.prems have "length (filter P xs) = Suc (length xs)" by simp
    with length_filter_le [of P xs] show ?thesis by simp
  qed
qed simp

lemma slide_left_changed_zero:
  assumes len: "length l = GRID_WIDTH" and ch: "slide_left l \<noteq> l"
  shows "0 \<in> set (slide_left l)"
proof (rule ccontr)
  let ?nz = "filter (\<lambda>x. x \<noteq> 0) l"
  assume no: "0 \<notin> set (slide_left l)"
  have sl: "slide_left l = merge_pass ?nz @ replicate (GRID_WIDTH - length (merge_pass ?nz)) 0"
    by (simp add: slide_left_def merge_tiles_refines compress_and_merge_spec_def Let_def)
  from no have "GRID_WIDTH - length (merge_pass ?nz) = 0"
    unfolding sl by (cases "GRID_WIDTH - length (merge_pass ?nz)") auto
  then have ge: "GRID_WIDTH \<le> length (merge_pass ?nz)" by simp
  have le: "length (merge_pass ?nz) \<le> length ?nz" by (rule length_merge_pass)
  have le2: "length ?nz \<le> length l" by simp
  from ge le le2 len have eq1: "length ?nz = length l" and eq2: "length (merge_pass ?nz) = length ?nz"
    by simp_all
  from eq1 have nz: "?nz = l" by (rule filter_same_length)
  from eq2 have "merge_pass ?nz = ?nz" by (rule merge_pass_same_length)
  with nz sl len have "slide_left l = l" by simp
  with ch show False by simp
qed

lemma slide_right_changed_zero:
  assumes len: "length l = GRID_WIDTH" and ch: "slide_right l \<noteq> l"
  shows "0 \<in> set (slide_right l)"
proof -
  have "slide_right l = rev (slide_left (rev l))"
    by (simp add: slide_right_def slide_left_def)
  with ch have "slide_left (rev l) \<noteq> rev l" by (auto simp: rev_swap)
  with len have "0 \<in> set (slide_left (rev l))"
    by (intro slide_left_changed_zero) simp_all
  then show ?thesis by (simp add: slide_right_def slide_left_def)
qed

subsection \<open>Game over and the changed flag\<close>

text \<open>
  C1: on a 4x4 grid with at least one nonzero cell, \<open>is_game_over\<close> holds exactly
  when none of the four moves reports a change; on every 4x4 grid it holds exactly when
  no cell is empty and no two horizontally or vertically adjacent cells are equal.
\<close>

theorem is_game_over_characterised:
  assumes "wf_grid g"
  shows "(has_nonzero_cell g \<longrightarrow> is_game_over g = no_move_changes g)
         \<and> is_game_over g = (no_empty_cell g \<and> no_equal_neighbours g)"
  using assms game_over_iff_stuck game_over_iff_closed by blast

theorem is_game_over_characterised_witness:
  "wf_grid [[2, 4, 2, 4], [4, 2, 4, 2], [2, 4, 2, 4], [4, 2, 4, 2]]
   \<and> has_nonzero_cell [[2, 4, 2, 4], [4, 2, 4, 2], [2, 4, 2, 4], [4, 2, 4, 2]]
   \<and> is_game_over [[2, 4, 2, 4], [4, 2, 4, 2], [2, 4, 2, 4], [4, 2, 4, 2]]
   \<and> no_move_changes [[2, 4, 2, 4], [4, 2, 4, 2], [2, 4, 2, 4], [4, 2, 4, 2]]
   \<and> no_empty_cell [[2, 4, 2, 4], [4, 2, 4, 2], [2, 4, 2, 4], [4, 2, 4, 2]]
   \<and> no_equal_neighbours [[2, 4, 2, 4], [4, 2, 4, 2], [2, 4, 2, 4], [4, 2, 4, 2]]"
proof -
  let ?g = "[[2, 4, 2, 4], [4, 2, 4, 2], [2, 4, 2, 4], [4, 2, 4, 2]] :: grid"
  have wf: "wf_grid ?g" by (simp add: wf_grid_def GRID_WIDTH_def)
  have nz: "has_nonzero_cell ?g" by (simp add: has_nonzero_cell_def)
  have over: "is_game_over ?g"
    by (simp add: is_game_over_def zip_star4 line_open4)
  from is_game_over_characterised [OF wf] nz over wf show ?thesis by simp
qed

text \<open>
  C1 on the grid of empty cells: \<open>is_game_over\<close> is False there, although each of the
  four moves reports no change; the first equivalence needs a tile on the grid.
\<close>

theorem is_game_over_empty_grid_counterexample:
  "\<not> is_game_over [[0, 0, 0, 0], [0, 0, 0, 0], [0, 0, 0, 0], [0, 0, 0, 0]]
   \<and> move [[0, 0, 0, 0], [0, 0, 0, 0], [0, 0, 0, 0], [0, 0, 0, 0]] ''w''
       = Inr ([[0, 0, 0, 0], [0, 0, 0, 0], [0, 0, 0, 0], [0, 0, 0, 0]], 0, False)
   \<and> move [[0, 0, 0, 0], [0, 0, 0, 0], [0, 0, 0, 0], [0, 0, 0, 0]] ''a''
       = Inr ([[0, 0, 0, 0], [0, 0, 0, 0], [0, 0, 0, 0], [0, 0, 0, 0]], 0, False)
   \<and> move [[0, 0, 0, 0], [0, 0, 0, 0], [0, 0, 0, 0], [0, 0, 0, 0]] ''s''
       = Inr ([[0, 0, 0, 0], [0, 0, 0, 0], [0, 0, 0, 0], [0, 0, 0, 0]], 0, False)
   \<and> move [[0, 0, 0, 0], [0, 0, 0, 0], [0, 0, 0, 0], [0, 0, 0, 0]] ''d''
       = Inr ([[0, 0, 0, 0], [0, 0, 0, 0], [0, 0, 0, 0], [0, 0, 0, 0]], 0, False)"
  by code_simp

text \<open>
  C5: on a 4x4 grid and for each of the four directions, \<open>move\<close> returns, and its flag is
  True exactly when the returned grid differs from the given one; a move that only
  shifts a tile, with score 0, reports True.
\<close>

theorem move_changed_flag:
  "(wf_grid g \<and> d \<in> set directions \<longrightarrow> (\<exists>ng sc. move g d = Inr (ng, sc, ng \<noteq> g)))
   \<and> move [[0, 2, 0, 0], [0, 0, 0, 0], [0, 0, 0, 0], [0, 0, 0, 0]] ''a''
       = Inr ([[2, 0, 0, 0], [0, 0, 0, 0], [0, 0, 0, 0], [0, 0, 0, 0]], 0, True)"
proof (intro conjI impI)
  assume a: "wf_grid g \<and> d \<in> set directions"
  then obtain ng sc ch where m: "move g d = Inr (ng, sc, ch)" using move_total by blast
  with a have "ch = (ng \<noteq> g)" using move_changed_iff by blast
  with m show "\<exists>ng sc. move g d = Inr (ng, sc, ng \<noteq> g)" by blast
next
  show "move [[0, 2, 0, 0], [0, 0, 0, 0], [0, 0, 0, 0], [0, 0, 0, 0]] ''a''
       = Inr ([[2, 0, 0, 0], [0, 0, 0, 0], [0, 0, 0, 0], [0, 0, 0, 0]], 0, True)"
    by code_simp
qed

theorem move_changed_flag_witness:
  "wf_grid [[2, 2, 0, 0], [0, 0, 0, 0], [0, 0, 0, 0], [0, 0, 0, 0]]
   \<and> ''s'' \<in> set directions
   \<and> move [[2, 2, 0, 0], [0, 0, 0, 0], [0, 0, 0, 0], [0, 0, 0, 0]] ''s''
       = Inr ([[0, 0, 0, 0], [0, 0, 0, 0], [0, 0, 0, 0], [2, 2, 0, 0]], 0, True)"
proof -
  let ?g = "[[2, 2, 0, 0], [0, 0, 0, 0], [0, 0, 0, 0], [0, 0, 0, 0]] :: grid"
  have wf: "wf_grid ?g" by (simp add: wf_grid_def GRID_WIDTH_def)
  have d: "''s'' \<in> set directions" by (simp add: directions_def)
  have m: "fst (projr (move ?g ''s'')) = [[0, 0, 0, 0], [0, 0, 0, 0], [0, 0, 0, 0], [2, 2, 0, 0]]"
       "fst (snd (projr (move ?g ''s''))) = 0"
    by code_simp+
  from move_changed_flag [of ?g "''s''"] wf d
  obtain ng sc where "move ?g ''s'' = Inr (ng, sc, ng \<noteq> ?g)" by blast
  with m wf d show ?thesis by simp
qed

subsection \<open>Spawning a tile\<close>

lemma set_empty_tiles:
  "set (empty_tiles g) = {(i, j). i < GRID_WIDTH \<and> j < GRID_WIDTH \<and> g ! i ! j = 0}"
  by (auto simp: empty_tiles_def)

lemma add_tile_pick:
  assumes "empty_tiles g \<noteq> []"
  shows "empty_tiles g ! (k mod length (empty_tiles g)) \<in> set (empty_tiles g)"
  using assms by (intro nth_mem) simp

lemma add_tile_spawned:
  assumes "add_tile g rnd = Inr g'"
  shows "spawned_in g g'"
proof -
  let ?et = "empty_tiles g"
  from assms have ne: "?et \<noteq> []"
    by (auto simp: add_tile_def Let_def split: if_splits)
  obtain i j where ij: "?et ! (choice_index rnd mod length ?et) = (i, j)"
    by (cases "?et ! (choice_index rnd mod length ?et)")
  with add_tile_pick [OF ne, of "choice_index rnd"] have "(i, j) \<in> set ?et" by simp
  then have b: "i < GRID_WIDTH" "j < GRID_WIDTH" "g ! i ! j = 0"
    by (auto simp: set_empty_tiles)
  from assms ne ij
  have "g' = g[i := (g ! i)[j := (if random_lt_09 rnd then 2 else 4)]]"
    by (auto simp: add_tile_def Let_def split: if_splits)
  with b show ?thesis unfolding spawned_in_def by auto
qed

lemma has_empty_cell_index:
  assumes "wf_grid g"
  shows "has_empty_cell g = (\<exists>i<GRID_WIDTH. \<exists>j<GRID_WIDTH. g ! i ! j = 0)"
proof
  assume "has_empty_cell g"
  then obtain row where row: "row \<in> set g" "0 \<in> set row"
    by (auto simp: has_empty_cell_def list_ex_iff)
  then obtain i j where "i < length g" "g ! i = row" "j < length row" "row ! j = 0"
    by (metis in_set_conv_nth)
  moreover from assms row have "length row = GRID_WIDTH" "length g = GRID_WIDTH"
    by (auto simp: wf_grid_def list_all_iff)
  ultimately show "\<exists>i<GRID_WIDTH. \<exists>j<GRID_WIDTH. g ! i ! j = 0" by auto
next
  assume "\<exists>i<GRID_WIDTH. \<exists>j<GRID_WIDTH. g ! i ! j = 0"
  then obtain i j where ij: "i < GRID_WIDTH" "j < GRID_WIDTH" "g ! i ! j = 0" by blast
  with assms have "g ! i \<in> set g" "length (g ! i) = GRID_WIDTH"
    by (auto simp: wf_grid_def list_all_iff)
  with ij have "g ! i \<in> set g" "0 \<in> set (g ! i)" by (auto simp: in_set_conv_nth)
  then show "has_empty_cell g" by (auto simp: has_empty_cell_def list_ex_iff)
qed

lemma wf_grid_shape:
  "wf_grid g \<Longrightarrow>
     \<not> (length g < GRID_WIDTH \<or> list_ex (\<lambda>row. length row < GRID_WIDTH) (take GRID_WIDTH g))"
  by (auto simp: wf_grid_def list_all_iff list_ex_iff dest: in_set_takeD)

lemma add_tile_returns:
  assumes wf: "wf_grid g" and e: "has_empty_cell g"
  shows "\<exists>g'. add_tile g rnd = Inr g'"
proof -
  from e wf have "set (empty_tiles g) \<noteq> {}"
    by (auto simp: has_empty_cell_index set_empty_tiles)
  then have "empty_tiles g \<noteq> []" by auto
  with wf_grid_shape [OF wf] show ?thesis
    by (auto simp: add_tile_def Let_def split: prod.splits)
qed

lemma add_tile_full:
  assumes "\<not> has_empty_cell g"
  shows "add_tile g rnd = Inl IndexError"
proof (cases "length g < GRID_WIDTH \<or> list_ex (\<lambda>row. length row < GRID_WIDTH) (take GRID_WIDTH g)")
  case True
  then show ?thesis by (simp add: add_tile_def)
next
  case False
  then have len: "GRID_WIDTH \<le> length g"
    and short: "\<forall>row\<in>set (take GRID_WIDTH g). GRID_WIDTH \<le> length row"
    by (auto simp: list_ex_iff not_less)
  have rows: "GRID_WIDTH \<le> length (g ! i)" if "i < GRID_WIDTH" for i
  proof -
    from that len have "take GRID_WIDTH g ! i \<in> set (take GRID_WIDTH g)"
      by (intro nth_mem) simp
    with that short show ?thesis by simp
  qed
  have "set (empty_tiles g) = {}"
  proof (rule ccontr)
    assume "set (empty_tiles g) \<noteq> {}"
    then obtain i j where ij: "i < GRID_WIDTH" "j < GRID_WIDTH" "g ! i ! j = 0"
      by (auto simp: set_empty_tiles)
    from ij len have "g ! i \<in> set g" by (intro nth_mem) simp
    moreover from ij rows [of i] have "g ! i ! j \<in> set (g ! i)" by (intro nth_mem) simp
    ultimately have "g ! i \<in> set g" "0 \<in> set (g ! i)" using ij by simp_all
    then have "has_empty_cell g" by (auto simp: has_empty_cell_def list_ex_iff)
    with assms show False by simp
  qed
  then have "empty_tiles g = []" by simp
  with False show ?thesis by (simp add: add_tile_def)
qed

lemma spawned_in_wf: "spawned_in g g' \<Longrightarrow> wf_grid g \<Longrightarrow> wf_grid g'"
  by (auto simp: spawned_in_def wf_grid_def list_all_iff
           dest!: set_update_subset_insert [THEN subsetD])

subsection \<open>What a move does to the grid\<close>

lemma move_cases:
  assumes wf: "wf_grid g" and d: "d \<in> set directions" and m: "move g d = Inr (ng, sc, ch)"
  obtains f where "f = slide_left \<or> f = slide_right"
    and "(ng = map f g \<and> ch = (\<exists>row\<in>set g. f row \<noteq> row))
         \<or> (ng = zip_star (map f (zip_star g)) \<and> ch = (\<exists>col\<in>set (zip_star g). f col \<noteq> col))"
proof -
  from d consider "d = ''w''" | "d = ''a''" | "d = ''s''" | "d = ''d''"
    by (auto simp: directions_def)
  then show ?thesis
  proof cases
    case 1 with m wf that [of slide_left] show ?thesis by (simp add: move_w)
  next
    case 2 with m that [of slide_left] show ?thesis by (simp add: move_a)
  next
    case 3 with m wf that [of slide_right] show ?thesis by (simp add: move_s)
  next
    case 4 with m that [of slide_right] show ?thesis by (simp add: move_d)
  qed
qed

lemma has_empty_zip_star: "wf_grid h \<Longrightarrow> has_empty_cell (zip_star h) = has_empty_cell h"
  by (auto dest!: wf_grid_rows line4 simp: zip_star4 has_empty_cell_def)

lemma grid_sum_zip_star: "wf_grid h \<Longrightarrow> grid_sum (zip_star h) = grid_sum h"
  by (auto dest!: wf_grid_rows line4 simp: zip_star4 grid_sum_def)

lemma tiles_ok_zip_star: "wf_grid h \<Longrightarrow> tiles_ok (zip_star h) = tiles_ok h"
  by (auto dest!: wf_grid_rows line4 simp: zip_star4 tiles_ok_def)

lemma wf_grid_row_length: "wf_grid g \<Longrightarrow> row \<in> set g \<Longrightarrow> length row = GRID_WIDTH"
  by (simp add: wf_grid_def list_all_iff)

lemma slide_changed_zero:
  assumes "f = slide_left \<or> f = slide_right" "length l = GRID_WIDTH" "f l \<noteq> l"
  shows "0 \<in> set (f l)"
  using assms slide_left_changed_zero slide_right_changed_zero by blast

lemma length_slide_either:
  "f = slide_left \<or> f = slide_right \<Longrightarrow> length l = GRID_WIDTH \<Longrightarrow> length (f l) = GRID_WIDTH"
  using length_slide by blast

lemma move_wf:
  assumes wf: "wf_grid g" and d: "d \<in> set directions" and m: "move g d = Inr (ng, sc, ch)"
  shows "wf_grid ng"
proof -
  from wf d m obtain f where f: "f = slide_left \<or> f = slide_right"
    and ng: "ng = map f g \<or> ng = zip_star (map f (zip_star g))"
    by (rule move_cases) blast
  have "wf_grid (map f h)" if "wf_grid h" for h
    using that length_slide_either [OF f] by (rule wf_grid_map)
  with ng wf show ?thesis by (auto intro: wf_grid_zip_star)
qed

lemma changed_lines_have_empty:
  assumes f: "f = slide_left \<or> f = slide_right" and wf: "wf_grid h"
    and ch: "\<exists>l\<in>set h. f l \<noteq> l"
  shows "has_empty_cell (map f h)"
proof -
  from ch obtain l where l: "l \<in> set h" "f l \<noteq> l" by blast
  with wf have "length l = GRID_WIDTH" by (simp add: wf_grid_row_length)
  with f l have "0 \<in> set (f l)" by (intro slide_changed_zero)
  with l show ?thesis by (auto simp: has_empty_cell_def list_ex_iff)
qed

lemma move_changed_has_empty:
  assumes wf: "wf_grid g" and d: "d \<in> set directions" and m: "move g d = Inr (ng, sc, True)"
  shows "has_empty_cell ng"
proof -
  from wf d m obtain f where f: "f = slide_left \<or> f = slide_right"
    and ng: "(ng = map f g \<and> (\<exists>row\<in>set g. f row \<noteq> row))
         \<or> (ng = zip_star (map f (zip_star g)) \<and> (\<exists>col\<in>set (zip_star g). f col \<noteq> col))"
    by (rule move_cases) simp
  from ng show ?thesis
  proof
    assume "ng = map f g \<and> (\<exists>row\<in>set g. f row \<noteq> row)"
    with f wf show ?thesis by (simp add: changed_lines_have_empty)
  next
    assume a: "ng = zip_star (map f (zip_star g)) \<and> (\<exists>col\<in>set (zip_star g). f col \<noteq> col)"
    have t: "wf_grid (zip_star g)" using wf by (rule wf_grid_zip_star)
    then have "wf_grid (map f (zip_star g))"
      using length_slide_either [OF f] by (rule wf_grid_map)
    moreover from a f t have "has_empty_cell (map f (zip_star g))"
      by (simp add: changed_lines_have_empty)
    ultimately show ?thesis using a by (simp add: has_empty_zip_star)
  qed
qed

text \<open>
  C2: \<open>add_tile\<close> raises on a grid without an empty cell; when \<open>move\<close> on a 4x4 grid, in
  one of the four directions, reports a change, the grid it returns has an empty cell and
  \<open>add_tile\<close> on it returns, so \<open>move_tiles\<close> does not raise.
\<close>

theorem add_tile_failure_unreachable:
  "(\<not> has_empty_cell g \<longrightarrow> add_tile g rnd = Inl IndexError)
   \<and> (wf_grid g \<and> d \<in> set directions \<and> move g d = Inr (ng, sc, True) \<longrightarrow>
        has_empty_cell ng \<and> (\<exists>g'. add_tile ng rnd = Inr g')
        \<and> (\<forall>st. grid st = g \<longrightarrow> fst (move_tiles_valid d rnd st) = Returned))"
proof (intro conjI impI allI)
  assume "\<not> has_empty_cell g"
  then show "add_tile g rnd = Inl IndexError" by (rule add_tile_full)
next
  assume a: "wf_grid g \<and> d \<in> set directions \<and> move g d = Inr (ng, sc, True)"
  then show e: "has_empty_cell ng" using move_changed_has_empty by blast
  from a have "wf_grid ng" using move_wf by blast
  then show r: "\<exists>g'. add_tile ng rnd = Inr g'" using e by (rule add_tile_returns)
  fix st :: game_state
  assume "grid st = g"
  with a r show "fst (move_tiles_valid d rnd st) = Returned"
    by (auto simp: move_tiles_valid_def Let_def)
qed

theorem add_tile_failure_unreachable_witness:
  "\<not> has_empty_cell [[2, 4, 2, 4], [4, 2, 4, 2], [2, 4, 2, 4], [4, 2, 4, 2]]
   \<and> add_tile [[2, 4, 2, 4], [4, 2, 4, 2], [2, 4, 2, 4], [4, 2, 4, 2]]
        \<lparr>choice_index = 7, random_lt_09 = True\<rparr> = Inl IndexError
   \<and> wf_grid [[2, 2, 0, 0], [4, 0, 0, 0], [0, 0, 0, 0], [0, 0, 0, 0]]
   \<and> ''a'' \<in> set directions
   \<and> move [[2, 2, 0, 0], [4, 0, 0, 0], [0, 0, 0, 0], [0, 0, 0, 0]] ''a''
       = Inr ([[4, 0, 0, 0], [4, 0, 0, 0], [0, 0, 0, 0], [0, 0, 0, 0]], 4, True)
   \<and> has_empty_cell [[4, 0, 0, 0], [4, 0, 0, 0], [0, 0, 0, 0], [0, 0, 0, 0]]
   \<and> (\<exists>g'. add_tile [[4, 0, 0, 0], [4, 0, 0, 0], [0, 0, 0, 0], [0, 0, 0, 0]]
              \<lparr>choice_index = 7, random_lt_09 = True\<rparr> = Inr g')"
proof -
  let ?full = "[[2, 4, 2, 4], [4, 2, 4, 2], [2, 4, 2, 4], [4, 2, 4, 2]] :: grid"
  let ?g = "[[2, 2, 0, 0], [4, 0, 0, 0], [0, 0, 0, 0], [0, 0, 0, 0]] :: grid"
  let ?ng = "[[4, 0, 0, 0], [4, 0, 0, 0], [0, 0, 0, 0], [0, 0, 0, 0]] :: grid"
  let ?rnd = "\<lparr>choice_index = 7, random_lt_09 = True\<rparr>"
  have full: "\<not> has_empty_cell ?full" by (simp add: has_empty_cell_def)
  have wf: "wf_grid ?g" by (simp add: wf_grid_def GRID_WIDTH_def)
  have d: "''a'' \<in> set directions" by (simp add: directions_def)
  have m: "move ?g ''a'' = Inr (?ng, 4, True)" by code_simp
  from add_tile_failure_unreachable [of ?full ?rnd] full
  have "add_tile ?full ?rnd = Inl IndexError" by blast
  moreover from add_tile_failure_unreachable [of ?g ?rnd "''a''" ?ng 4] wf d m
  have "has_empty_cell ?ng \<and> (\<exists>g'. add_tile ?ng ?rnd = Inr g')" by blast
  ultimately show ?thesis using full wf d m by blast
qed

lemma sum_list_slide:
  "f = slide_left \<or> f = slide_right \<Longrightarrow> sum_list (f l) = sum_list l"
  using sum_list_merge_tiles [of l] sum_list_merge_tiles [of "rev l"]
  by (auto simp: slide_left_def slide_right_def)

lemma grid_sum_map:
  "(\<And>l. sum_list (f l) = sum_list l) \<Longrightarrow> grid_sum (map f h) = grid_sum h"
  by (simp add: grid_sum_def comp_def)

text \<open>
  C7: on a 4x4 grid and for each of the four directions, the cells of the grid \<open>move\<close>
  returns have the same sum as the cells of the given grid.
\<close>

theorem move_conserves_sum:
  assumes "wf_grid g" and "d \<in> set directions"
  shows "\<exists>ng sc ch. move g d = Inr (ng, sc, ch) \<and> grid_sum ng = grid_sum g"
proof -
  from assms(2) obtain ng sc ch where m: "move g d = Inr (ng, sc, ch)"
    using move_total by blast
  with assms obtain f where f: "f = slide_left \<or> f = slide_right"
    and ng: "ng = map f g \<or> ng = zip_star (map f (zip_star g))"
    by (rule move_cases) blast
  have s: "grid_sum (map f h) = grid_sum h" for h
    using sum_list_slide [OF f] by (rule grid_sum_map)
  have "wf_grid (map f (zip_star g))"
    using wf_grid_zip_star [OF assms(1)] length_slide_either [OF f] by (rule wf_grid_map)
  then have "grid_sum (zip_star (map f (zip_star g))) = grid_sum g"
    using assms(1) by (simp add: grid_sum_zip_star s)
  with ng s have "grid_sum ng = grid_sum g" by auto
  with m show ?thesis by blast
qed

theorem move_conserves_sum_witness:
  "wf_grid [[2, 2, 0, 0], [2, 0, 0, 0], [0, 0, 4, 0], [0, 0, 4, 0]]
   \<and> ''s'' \<in> set directions
   \<and> move [[2, 2, 0, 0], [2, 0, 0, 0], [0, 0, 4, 0], [0, 0, 4, 0]] ''s''
       = Inr ([[0, 0, 0, 0], [0, 0, 0, 0], [0, 0, 0, 0], [4, 2, 8, 0]], 12, True)
   \<and> grid_sum [[0, 0, 0, 0], [0, 0, 0, 0], [0, 0, 0, 0], [4, 2, 8, 0]]
       = grid_sum [[2, 2, 0, 0], [2, 0, 0, 0], [0, 0, 4, 0], [0, 0, 4, 0]]"
proof -
  let ?g = "[[2, 2, 0, 0], [2, 0, 0, 0], [0, 0, 4, 0], [0, 0, 4, 0]] :: grid"
  have wf: "wf_grid ?g" by (simp add: wf_grid_def GRID_WIDTH_def)
  have d: "''s'' \<in> set directions" by (simp add: directions_def)
  have m: "move ?g ''s'' = Inr ([[0, 0, 0, 0], [0, 0, 0, 0], [0, 0, 0, 0], [4, 2, 8, 0]], 12, True)"
    by code_simp
  from move_conserves_sum [OF wf d] m wf d show ?thesis by auto
qed

subsection \<open>The move handler\<close>

lemma requested_truthy:
  "requested direction form = Some d \<Longrightarrow> d \<in> set directions \<Longrightarrow>
     \<not> falsy (requested direction form)
     \<and> (requested direction form = Some ''w'' \<or> requested direction form = Some ''a''
        \<or> requested direction form = Some ''s'' \<or> requested direction form = Some ''d'')"
  by (auto simp: falsy_def directions_def)

lemma move_tiles_requested:
  "move_tiles direction form rnd st =
     (let direction' = requested direction form;
          (oc, st') =
            (if direction' = Some ''w'' \<or> direction' = Some ''a''
                \<or> direction' = Some ''s'' \<or> direction' = Some ''d''
             then move_tiles_valid (the direction') rnd st
             else (Returned, st))
      in case oc of
           Raised e \<Rightarrow> (Raised e, st')
         | _ \<Rightarrow> if falsy direction' then (Redirected, st') else (oc, st'))"
  by (simp add: move_tiles_def requested_def)

lemma move_tiles_on_valid:
  assumes "requested direction form = Some d" and "d \<in> set directions"
    and "fst (move_tiles_valid d rnd st) = Returned"
  shows "move_tiles direction form rnd st = (Returned, snd (move_tiles_valid d rnd st))"
  using assms requested_truthy [OF assms(1,2)]
  by (cases "move_tiles_valid d rnd st") (simp add: move_tiles_requested)

text \<open>
  C4: for one of the four directions on a 4x4 grid, \<open>move_tiles\<close> after a move that
  reports a change stores the moved grid with one tile spawned, adds the move's score and
  raises the high score to the new score when that is larger; after a move that reports
  no change it leaves grid, score and high score as they were.
\<close>

theorem move_tiles_behaviour:
  assumes wf: "wf_grid (grid st)"
    and rq: "requested direction form = Some d" and d: "d \<in> set directions"
    and m: "move (grid st) d = Inr (ng, added, moved)"
  shows "(moved \<longrightarrow>
            (\<exists>g'. add_tile ng rnd = Inr g' \<and> spawned_in ng g'
               \<and> move_tiles direction form rnd st
                   = (Returned, \<lparr>grid = g', score = score st + added,
                                 high_score = max (high_score st) (score st + added)\<rparr>)))
         \<and> (\<not> moved \<longrightarrow> move_tiles direction form rnd st = (Returned, st))"
proof (intro conjI impI)
  assume moved
  with m have m': "move (grid st) d = Inr (ng, added, True)" by simp
  from wf d m' have "has_empty_cell ng" by (rule move_changed_has_empty)
  moreover from wf d m have "wf_grid ng" by (rule move_wf)
  ultimately obtain g' where g': "add_tile ng rnd = Inr g'"
    using add_tile_returns by blast
  then have sp: "spawned_in ng g'" by (rule add_tile_spawned)
  from m' g' have v: "move_tiles_valid d rnd st
      = (Returned, \<lparr>grid = g', score = score st + added,
                    high_score = max (high_score st) (score st + added)\<rparr>)"
    by (simp add: move_tiles_valid_def Let_def max_def)
  then have "fst (move_tiles_valid d rnd st) = Returned" by simp
  from move_tiles_on_valid [OF rq d this] v g' sp
  show "\<exists>g'. add_tile ng rnd = Inr g' \<and> spawned_in ng g'
               \<and> move_tiles direction form rnd st
                   = (Returned, \<lparr>grid = g', score = score st + added,
                                 high_score = max (high_score st) (score st + added)\<rparr>)"
    by simp
next
  assume nm: "\<not> moved"
  with move_changed_iff [OF wf d m] have "ng = grid st" by simp
  with m nm have v: "move_tiles_valid d rnd st = (Returned, st)"
    by (simp add: move_tiles_valid_def Let_def)
  then have "fst (move_tiles_valid d rnd st) = Returned" by simp
  from move_tiles_on_valid [OF rq d this] v
  show "move_tiles direction form rnd st = (Returned, st)" by simp
qed

theorem move_tiles_behaviour_witness:
  "wf_grid (grid \<lparr>grid = [[2, 2, 0, 0], [0, 0, 0, 0], [0, 0, 0, 0], [0, 0, 0, 0]],
                  score = 3, high_score = 5\<rparr>)
   \<and> requested None (Some ''a'') = Some ''a'' \<and> ''a'' \<in> set directions
   \<and> move_tiles None (Some ''a'') \<lparr>choice_index = 5, random_lt_09 = True\<rparr>
        \<lparr>grid = [[2, 2, 0, 0], [0, 0, 0, 0], [0, 0, 0, 0], [0, 0, 0, 0]],
         score = 3, high_score = 5\<rparr>
       = (Returned, \<lparr>grid = [[4, 0, 0, 0], [0, 0, 2, 0], [0, 0, 0, 0], [0, 0, 0, 0]],
                     score = 7, high_score = 7\<rparr>)
   \<and> requested (Some ''w'') None = Some ''w'' \<and> ''w'' \<in> set directions
   \<and> move_tiles (Some ''w'') None \<lparr>choice_index = 5, random_lt_09 = True\<rparr>
        \<lparr>grid = [[2, 2, 0, 0], [0, 0, 0, 0], [0, 0, 0, 0], [0, 0, 0, 0]],
         score = 3, high_score = 5\<rparr>
       = (Returned, \<lparr>grid = [[2, 2, 0, 0], [0, 0, 0, 0], [0, 0, 0, 0], [0, 0, 0, 0]],
                     score = 3, high_score = 5\<rparr>)"
proof -
  let ?g = "[[2, 2, 0, 0], [0, 0, 0, 0], [0, 0, 0, 0], [0, 0, 0, 0]] :: grid"
  let ?ng = "[[4, 0, 0, 0], [0, 0, 0, 0], [0, 0, 0, 0], [0, 0, 0, 0]] :: grid"
  let ?st = "\<lparr>grid = ?g, score = 3, high_score = 5\<rparr>"
  let ?rnd = "\<lparr>choice_index = 5, random_lt_09 = True\<rparr>"
  have wf: "wf_grid (grid ?st)" by (simp add: wf_grid_def GRID_WIDTH_def)
  have rq: "requested None (Some ''a'') = Some ''a''" "requested (Some ''w'') None = Some ''w''"
    by (simp_all add: requested_def falsy_def)
  have d: "''a'' \<in> set directions" "''w'' \<in> set directions" by (simp_all add: directions_def)
  have ma: "move (grid ?st) ''a'' = Inr (?ng, 4, True)" by code_simp
  have mw: "move (grid ?st) ''w'' = Inr (?g, 0, False)" by code_simp
  have sp: "add_tile ?ng ?rnd = Inr [[4, 0, 0, 0], [0, 0, 2, 0], [0, 0, 0, 0], [0, 0, 0, 0]]"
    by code_simp
  from move_tiles_behaviour [OF wf rq(1) d(1) ma, of ?rnd] sp
  have a: "move_tiles None (Some ''a'') ?rnd ?st
       = (Returned, \<lparr>grid = [[4, 0, 0, 0], [0, 0, 2, 0], [0, 0, 0, 0], [0, 0, 0, 0]],
                     score = 7, high_score = 7\<rparr>)"
    by simp
  from move_tiles_behaviour [OF wf rq(2) d(2) mw, of ?rnd]
  have w: "move_tiles (Some ''w'') None ?rnd ?st = (Returned, ?st)" by simp
  from wf rq d a w show ?thesis by simp
qed

text \<open>
  C6: when the direction \<open>move_tiles\<close> tests is none of the four, the handler raises no
  error and leaves grid, score and high score as they were; it returns, or redirects when
  the direction is None or empty.
\<close>

theorem move_tiles_ignores_other_directions:
  assumes "requested direction form \<notin> Some ` set directions"
  shows "move_tiles direction form rnd st
           = (if falsy (requested direction form) then Redirected else Returned, st)"
  using assms by (auto simp: move_tiles_requested directions_def)

theorem move_tiles_ignores_other_directions_witness:
  "requested (Some ''x'') None \<notin> Some ` set directions
   \<and> move_tiles (Some ''x'') None \<lparr>choice_index = 5, random_lt_09 = True\<rparr>
        \<lparr>grid = [[2, 2, 0, 0], [0, 0, 0, 0], [0, 0, 0, 0], [0, 0, 0, 0]],
         score = 3, high_score = 5\<rparr>
       = (Returned, \<lparr>grid = [[2, 2, 0, 0], [0, 0, 0, 0], [0, 0, 0, 0], [0, 0, 0, 0]],
                     score = 3, high_score = 5\<rparr>)"
proof -
  have rq: "requested (Some ''x'') None = Some ''x''" by (simp add: requested_def falsy_def)
  have h: "requested (Some ''x'') None \<notin> Some ` set directions"
    unfolding rq by (simp add: directions_def)
  have nf: "\<not> falsy (requested (Some ''x'') None)" unfolding rq by (simp add: falsy_def)
  from move_tiles_ignores_other_directions [OF h] nf h show ?thesis by simp
qed

subsection \<open>Tile values\<close>

lemma move_unbound:
  "d \<notin> set directions \<Longrightarrow> move g d = Inl UnboundLocalError"
  by (simp add: move_def directions_def)

lemma pow2_ge2_lower: "pow2_ge2 v \<Longrightarrow> 2 \<le> v"
  by (subst (asm) pow2_ge2.simps) (simp split: if_splits)

lemma pow2_ge2_double: "pow2_ge2 v \<Longrightarrow> pow2_ge2 (v * 2)"
  using pow2_ge2_lower [of v] by (subst pow2_ge2.simps) simp

lemma pow2_ge2_power: "pow2_ge2 (2 ^ Suc k)"
proof (induction k)
  case 0 show ?case by (subst pow2_ge2.simps) simp
next
  case (Suc k)
  from pow2_ge2_double [OF this] show ?case by (simp add: mult.commute)
qed

lemma pow2_ge2_is_power: "pow2_ge2 v \<Longrightarrow> \<exists>k. v = 2 ^ Suc k"
proof (induction v rule: pow2_ge2.induct)
  case (1 v)
  show ?case
  proof (cases "v = 2")
    case True
    then have "v = 2 ^ Suc 0" by simp
    then show ?thesis by blast
  next
    case False
    from "1.prems" have v: "\<not> v < 2" "v mod 2 = 0" "pow2_ge2 (v div 2)"
      using False by (subst (asm) pow2_ge2.simps, simp split: if_splits)+
    from "1.IH" [OF v(1) False v(3)] obtain k where "v div 2 = 2 ^ Suc k" by blast
    with v(2) have "v = 2 ^ Suc (Suc k)" by (simp add: mod_eq_0_iff_dvd) presburger
    then show ?thesis by blast
  qed
qed

lemma tile_ok_iff: "tile_ok v = (v = 0 \<or> (\<exists>k\<ge>1. v = 2 ^ k))"
proof -
  have "pow2_ge2 v = (\<exists>k\<ge>1. v = 2 ^ k)"
  proof
    assume "pow2_ge2 v"
    then obtain k where "v = 2 ^ Suc k" using pow2_ge2_is_power by blast
    then show "\<exists>k\<ge>1. v = 2 ^ k" by (intro exI [of _ "Suc k"]) simp
  next
    assume "\<exists>k\<ge>1. v = 2 ^ k"
    then obtain k where k: "1 \<le> k" "v = 2 ^ k" by blast
    then obtain k' where "k = Suc k'" by (cases k) auto
    with k show "pow2_ge2 v" using pow2_ge2_power by simp
  qed
  then show ?thesis by (simp add: tile_ok_def)
qed

lemma tile_ok_simps: "tile_ok 0" "tile_ok 2" "tile_ok 4"
  using pow2_ge2_power [of 0] pow2_ge2_power [of 1] by (simp_all add: tile_ok_def)

lemma tile_ok_double: "tile_ok v \<Longrightarrow> tile_ok (v * 2)"
  by (auto simp: tile_ok_def pow2_ge2_double)

lemma tile_ok_merge_pass: "list_all tile_ok xs \<Longrightarrow> list_all tile_ok (merge_pass xs)"
  by (induction xs rule: merge_pass.induct) (auto simp: tile_ok_double)

lemma tile_ok_slide_left: "list_all tile_ok l \<Longrightarrow> list_all tile_ok (slide_left l)"
proof -
  assume "list_all tile_ok l"
  then have "list_all tile_ok (filter (\<lambda>x. x \<noteq> 0) l)" by (simp add: list_all_iff)
  then have "list_all tile_ok (merge_pass (filter (\<lambda>x. x \<noteq> 0) l))" by (rule tile_ok_merge_pass)
  then show ?thesis
    by (auto simp: slide_left_def merge_tiles_refines compress_and_merge_spec_def Let_def
          list_all_iff tile_ok_simps)
qed

lemma tile_ok_slide:
  assumes "f = slide_left \<or> f = slide_right" "list_all tile_ok l"
  shows "list_all tile_ok (f l)"
proof -
  have "slide_right l = rev (slide_left (rev l))" by (simp add: slide_right_def slide_left_def)
  moreover have "list_all tile_ok (slide_left (rev l))"
    using assms(2) by (intro tile_ok_slide_left) (simp add: list_all_iff)
  ultimately have "list_all tile_ok (slide_right l)" by (simp add: list_all_iff)
  with assms tile_ok_slide_left show ?thesis by blast
qed

lemma tiles_ok_map:
  "(\<And>l. list_all tile_ok l \<Longrightarrow> list_all tile_ok (f l)) \<Longrightarrow> tiles_ok h \<Longrightarrow> tiles_ok (map f h)"
  by (auto simp: tiles_ok_def list_all_iff)

lemma move_tiles_ok:
  assumes wf: "wf_grid g" and ok: "tiles_ok g" and d: "d \<in> set directions"
    and m: "move g d = Inr (ng, sc, ch)"
  shows "tiles_ok ng"
proof -
  from wf d m obtain f where f: "f = slide_left \<or> f = slide_right"
    and ng: "ng = map f g \<or> ng = zip_star (map f (zip_star g))"
    by (rule move_cases) blast
  have s: "tiles_ok (map f h)" if "tiles_ok h" for h
    using tile_ok_slide [OF f] that by (rule tiles_ok_map)
  have "wf_grid (map f (zip_star g))"
    using wf_grid_zip_star [OF wf] length_slide_either [OF f] by (rule wf_grid_map)
  then have "tiles_ok (zip_star (map f (zip_star g)))"
    using wf ok by (simp add: tiles_ok_zip_star s)
  with ng s ok show ?thesis by auto
qed

lemma list_all_update:
  "list_all P xs \<Longrightarrow> P x \<Longrightarrow> list_all P (xs[i := x])"
  by (auto simp: list_all_iff dest!: set_update_subset_insert [THEN subsetD])

lemma spawned_tiles_ok:
  assumes "spawned_in g g'" "tiles_ok g"
  shows "tiles_ok g'"
proof -
  from assms(1) obtain i j v where v: "v = 2 \<or> v = 4"
    and g': "g' = g[i := (g ! i)[j := v]]" and i: "i < GRID_WIDTH"
    unfolding spawned_in_def by auto
  from v have tv: "tile_ok v" using tile_ok_simps by auto
  show ?thesis
  proof (cases "i < length g")
    case True
    then have "list_all tile_ok (g ! i)" using assms(2) by (simp add: tiles_ok_def list_all_length)
    then have "list_all tile_ok ((g ! i)[j := v])" using tv by (rule list_all_update)
    with assms(2) show ?thesis unfolding g' tiles_ok_def by (rule list_all_update)
  next
    case False
    then have "g' = g" unfolding g' by (simp add: not_less list_update_beyond)
    with assms(2) show ?thesis by simp
  qed
qed

subsection \<open>New games\<close>

lemma nonzero_update:
  assumes "j < length l" "l ! j = 0" "v \<noteq> 0"
  shows "length (filter (\<lambda>x. x \<noteq> 0) (l[j := v])) = Suc (length (filter (\<lambda>x. x \<noteq> (0::int)) l))"
proof -
  have "l = take j l @ l ! j # drop (Suc j) l" using assms(1) by (rule id_take_nth_drop)
  then have l: "l = take j l @ 0 # drop (Suc j) l" using assms(2) by simp
  have u: "l[j := v] = take j l @ v # drop (Suc j) l" using assms(1) by (rule upd_conv_take_nth_drop)
  have "length (filter (\<lambda>x. x \<noteq> 0) l)
          = length (filter (\<lambda>x. x \<noteq> 0) (take j l @ 0 # drop (Suc j) l))"
    using l by simp
  then show ?thesis unfolding u using assms(3) by simp
qed

lemma nonzero_count_append:
  "nonzero_count (a @ b) = nonzero_count a + nonzero_count b"
  by (simp add: nonzero_count_def)

lemma nonzero_count_Cons:
  "nonzero_count (r # b) = length (filter (\<lambda>x. x \<noteq> 0) r) + nonzero_count b"
  by (simp add: nonzero_count_def)

lemma nonzero_count_update:
  assumes "i < length g" "length (filter (\<lambda>x. x \<noteq> 0) r) = Suc (length (filter (\<lambda>x. x \<noteq> 0) (g ! i)))"
  shows "nonzero_count (g[i := r]) = Suc (nonzero_count g)"
proof -
  have g: "g = take i g @ g ! i # drop (Suc i) g" using assms(1) by (rule id_take_nth_drop)
  have u: "g[i := r] = take i g @ r # drop (Suc i) g" using assms(1) by (rule upd_conv_take_nth_drop)
  have "nonzero_count g = nonzero_count (take i g)
          + (length (filter (\<lambda>x. x \<noteq> 0) (g ! i)) + nonzero_count (drop (Suc i) g))"
    using g nonzero_count_append nonzero_count_Cons by metis
  moreover have "nonzero_count (g[i := r]) = nonzero_count (take i g)
          + (length (filter (\<lambda>x. x \<noteq> 0) r) + nonzero_count (drop (Suc i) g))"
    unfolding u by (simp add: nonzero_count_append nonzero_count_Cons)
  ultimately show ?thesis using assms(2) by simp
qed

lemma spawned_nonzero_count:
  assumes "spawned_in g g'" "wf_grid g"
  shows "nonzero_count g' = Suc (nonzero_count g)"
proof -
  from assms(1) obtain i j v where v: "v = 2 \<or> v = 4" and z: "g ! i ! j = 0"
    and g': "g' = g[i := (g ! i)[j := v]]" and i: "i < GRID_WIDTH" and j: "j < GRID_WIDTH"
    unfolding spawned_in_def by auto
  from assms(2) i have il: "i < length g" by (simp add: wf_grid_def)
  then have "g ! i \<in> set g" by simp
  with assms(2) j have jl: "j < length (g ! i)" by (simp add: wf_grid_row_length)
  from v have "v \<noteq> 0" by auto
  with jl z have "length (filter (\<lambda>x. x \<noteq> 0) ((g ! i)[j := v]))
                    = Suc (length (filter (\<lambda>x. x \<noteq> 0) (g ! i)))"
    by (intro nonzero_update)
  with il show ?thesis unfolding g' by (rule nonzero_count_update)
qed

lemma wf_grid_cells: "wf_grid g \<Longrightarrow> length (concat g) = GRID_WIDTH * GRID_WIDTH"
  by (auto dest!: wf_grid_rows simp: GRID_WIDTH_def)

lemma few_tiles_has_empty:
  assumes "wf_grid g" "nonzero_count g < GRID_WIDTH * GRID_WIDTH"
  shows "has_empty_cell g"
proof (rule ccontr)
  assume "\<not> has_empty_cell g"
  then have "\<forall>x\<in>set (concat g). x \<noteq> 0" by (auto simp: has_empty_cell_def list_ex_iff)
  then have "filter (\<lambda>x. x \<noteq> 0) (concat g) = concat g" by (simp add: filter_id_conv)
  then have "nonzero_count g = length (concat g)" by (simp add: nonzero_count_def)
  with assms wf_grid_cells [OF assms(1)] show False by simp
qed

lemma spawned_small_tiles:
  assumes "spawned_in g g'" "small_tiles g" "wf_grid g"
  shows "small_tiles g'"
proof -
  from assms(1) obtain i j v where v: "v = 2 \<or> v = 4"
    and g': "g' = g[i := (g ! i)[j := v]]" and i: "i < GRID_WIDTH"
    unfolding spawned_in_def by auto
  from assms(3) i have "i < length g" by (simp add: wf_grid_def)
  then have "list_all (\<lambda>x. x = 0 \<or> x = 2 \<or> x = 4) (g ! i)"
    using assms(2) by (simp add: small_tiles_def list_all_length)
  then have "list_all (\<lambda>x. x = 0 \<or> x = 2 \<or> x = 4) ((g ! i)[j := v])"
    using v by (intro list_all_update) auto
  with assms(2) show ?thesis unfolding g' small_tiles_def by (rule list_all_update)
qed

lemma empty_grid_facts:
  "wf_grid (replicate GRID_WIDTH (replicate GRID_WIDTH 0))"
  "nonzero_count (replicate GRID_WIDTH (replicate GRID_WIDTH 0)) = 0"
  "small_tiles (replicate GRID_WIDTH (replicate GRID_WIDTH 0))"
  "tiles_ok (replicate GRID_WIDTH (replicate GRID_WIDTH 0))"
  by (simp_all add: wf_grid_def GRID_WIDTH_def nonzero_count_def small_tiles_def tiles_ok_def
        tile_ok_simps eval_nat_numeral)

lemma new_game_returns:
  "\<exists>g. new_game r1 r2 = Inr g \<and> wf_grid g \<and> nonzero_count g = 2 \<and> small_tiles g \<and> tiles_ok g"
proof -
  let ?e = "replicate GRID_WIDTH (replicate GRID_WIDTH (0::int))"
  note e = empty_grid_facts
  have "has_empty_cell ?e" using e(1,2) by (intro few_tiles_has_empty) (simp_all add: GRID_WIDTH_def)
  with e(1) obtain g1 where g1: "add_tile ?e r1 = Inr g1" using add_tile_returns by blast
  then have s1: "spawned_in ?e g1" by (rule add_tile_spawned)
  then have w1: "wf_grid g1" and c1: "nonzero_count g1 = 1"
    and t1: "small_tiles g1" and o1: "tiles_ok g1"
    using e by (simp_all add: spawned_in_wf spawned_nonzero_count spawned_small_tiles
                  spawned_tiles_ok)
  have "has_empty_cell g1" using w1 c1 by (intro few_tiles_has_empty) (simp_all add: GRID_WIDTH_def)
  with w1 obtain g2 where g2: "add_tile g1 r2 = Inr g2" using add_tile_returns by blast
  then have s2: "spawned_in g1 g2" by (rule add_tile_spawned)
  then have "wf_grid g2" "nonzero_count g2 = 2" "small_tiles g2" "tiles_ok g2"
    using w1 c1 t1 o1 by (simp_all add: spawned_in_wf spawned_nonzero_count spawned_small_tiles
                  spawned_tiles_ok)
  moreover have "new_game r1 r2 = Inr g2" using g1 g2 by (simp add: new_game_def)
  ultimately show ?thesis by blast
qed

text \<open>
  C8: \<open>restart_game\<close> returns with score 0, the high score as it was, and a new 4x4 grid
  with exactly two nonzero cells, every cell being 0, 2 or 4.
\<close>

theorem restart_game_resets:
  "\<exists>g. new_game r1 r2 = Inr g
       \<and> restart_game r1 r2 st
           = (Returned, \<lparr>grid = g, score = 0, high_score = high_score st\<rparr>)
       \<and> wf_grid g \<and> nonzero_count g = 2 \<and> small_tiles g"
proof -
  from new_game_returns [of r1 r2] obtain g where g: "new_game r1 r2 = Inr g" "wf_grid g"
    "nonzero_count g = 2" "small_tiles g" by blast
  then have "restart_game r1 r2 st
           = (Returned, \<lparr>grid = g, score = 0, high_score = high_score st\<rparr>)"
    by (simp add: restart_game_def)
  with g show ?thesis by blast
qed

text \<open>
  C9: a move in one of the four directions on a 4x4 grid whose cells are 0 or powers of
  two from 2 on returns such a grid; \<open>add_tile\<close> writes 2 or 4 into one empty cell and
  keeps the property; \<open>new_game\<close> returns a grid with the property.
\<close>

theorem tiles_ok_preserved:
  "(wf_grid g \<and> tiles_ok g \<and> d \<in> set directions \<longrightarrow>
      (\<exists>ng sc ch. move g d = Inr (ng, sc, ch) \<and> tiles_ok ng))
   \<and> (add_tile g rnd = Inr g' \<longrightarrow> spawned_in g g' \<and> (tiles_ok g \<longrightarrow> tiles_ok g'))
   \<and> (\<exists>g0. new_game r1 r2 = Inr g0 \<and> tiles_ok g0)"
proof (intro conjI impI)
  assume a: "wf_grid g \<and> tiles_ok g \<and> d \<in> set directions"
  then obtain ng sc ch where m: "move g d = Inr (ng, sc, ch)" using move_total by blast
  with a have "tiles_ok ng" using move_tiles_ok by blast
  with m show "\<exists>ng sc ch. move g d = Inr (ng, sc, ch) \<and> tiles_ok ng" by blast
next
  assume "add_tile g rnd = Inr g'"
  then show s: "spawned_in g g'" by (rule add_tile_spawned)
  assume "tiles_ok g"
  with s show "tiles_ok g'" by (rule spawned_tiles_ok)
next
  from new_game_returns [of r1 r2] show "\<exists>g0. new_game r1 r2 = Inr g0 \<and> tiles_ok g0" by blast
qed

theorem tiles_ok_preserved_witness:
  "wf_grid [[2, 2, 0, 0], [4, 0, 0, 0], [0, 0, 0, 0], [0, 0, 0, 0]]
   \<and> tiles_ok [[2, 2, 0, 0], [4, 0, 0, 0], [0, 0, 0, 0], [0, 0, 0, 0]]
   \<and> ''a'' \<in> set directions
   \<and> move [[2, 2, 0, 0], [4, 0, 0, 0], [0, 0, 0, 0], [0, 0, 0, 0]] ''a''
       = Inr ([[4, 0, 0, 0], [4, 0, 0, 0], [0, 0, 0, 0], [0, 0, 0, 0]], 4, True)
   \<and> tiles_ok [[4, 0, 0, 0], [4, 0, 0, 0], [0, 0, 0, 0], [0, 0, 0, 0]]
   \<and> add_tile [[4, 0, 0, 0], [4, 0, 0, 0], [0, 0, 0, 0], [0, 0, 0, 0]]
        \<lparr>choice_index = 0, random_lt_09 = False\<rparr>
       = Inr [[4, 4, 0, 0], [4, 0, 0, 0], [0, 0, 0, 0], [0, 0, 0, 0]]
   \<and> spawned_in [[4, 0, 0, 0], [4, 0, 0, 0], [0, 0, 0, 0], [0, 0, 0, 0]]
        [[4, 4, 0, 0], [4, 0, 0, 0], [0, 0, 0, 0], [0, 0, 0, 0]]
   \<and> tiles_ok [[4, 4, 0, 0], [4, 0, 0, 0], [0, 0, 0, 0], [0, 0, 0, 0]]"
proof -
  let ?g = "[[2, 2, 0, 0], [4, 0, 0, 0], [0, 0, 0, 0], [0, 0, 0, 0]] :: grid"
  let ?ng = "[[4, 0, 0, 0], [4, 0, 0, 0], [0, 0, 0, 0], [0, 0, 0, 0]] :: grid"
  let ?g' = "[[4, 4, 0, 0], [4, 0, 0, 0], [0, 0, 0, 0], [0, 0, 0, 0]] :: grid"
  let ?rnd = "\<lparr>choice_index = 0, random_lt_09 = False\<rparr>"
  have wf: "wf_grid ?g" by (simp add: wf_grid_def GRID_WIDTH_def)
  have ok: "tiles_ok ?g" by (simp add: tiles_ok_def tile_ok_simps)
  have d: "''a'' \<in> set directions" by (simp add: directions_def)
  have m: "move ?g ''a'' = Inr (?ng, 4, True)" by code_simp
  have sp: "add_tile ?ng ?rnd = Inr ?g'" by code_simp
  from tiles_ok_preserved [of ?g "''a''"] wf ok d m
  have ok': "tiles_ok ?ng" by auto
  from tiles_ok_preserved [of ?ng _ ?rnd ?g'] sp ok'
  have "spawned_in ?ng ?g' \<and> tiles_ok ?g'" by blast
  with wf ok d m ok' sp show ?thesis by blast
qed

subsection \<open>Score and high score\<close>

lemma move_tiles_valid_scores:
  "scores_ok st \<Longrightarrow> scores_ok (snd (move_tiles_valid d rnd st))"
  by (auto simp: scores_ok_def move_tiles_valid_def Let_def split: sum.splits prod.splits)

lemma move_tiles_scores:
  "scores_ok st \<Longrightarrow> scores_ok (snd (move_tiles direction form rnd st))"
  using move_tiles_valid_scores [of st "the (requested direction form)" rnd]
  by (auto simp: move_tiles_requested Let_def split: prod.splits outcome.splits)

lemma restart_game_scores:
  "scores_ok st \<Longrightarrow> scores_ok (snd (restart_game r1 r2 st))"
  by (auto simp: scores_ok_def restart_game_def split: sum.splits)

lemma handle_scores: "scores_ok st \<Longrightarrow> scores_ok (snd (handle rq st))"
  by (cases rq) (simp_all add: move_tiles_scores restart_game_scores)

lemma run_scores: "scores_ok st \<Longrightarrow> scores_ok (run rqs st)"
  unfolding run_def by (induction rqs arbitrary: st) (simp_all add: handle_scores)

text \<open>
  C10: the session starts, and after every sequence of \<open>move_tiles\<close> and
  \<open>restart_game\<close> requests from the initial state the score is at most the high score.
\<close>

theorem score_le_high_score:
  "\<exists>s0. initial_state r1 r2 = Inr s0 \<and> score (run rqs s0) \<le> high_score (run rqs s0)"
proof -
  from new_game_returns [of r1 r2] obtain g where "new_game r1 r2 = Inr g" by blast
  then have i: "initial_state r1 r2 = Inr \<lparr>grid = g, score = 0, high_score = 0\<rparr>"
    by (simp add: initial_state_def)
  have "scores_ok \<lparr>grid = g, score = 0, high_score = 0\<rparr>" by (simp add: scores_ok_def)
  then have "scores_ok (run rqs \<lparr>grid = g, score = 0, high_score = 0\<rparr>)" by (rule run_scores)
  with i show ?thesis by (auto simp: scores_ok_def)
qed

end
